theory Spec2Isabelle
  imports Complex_Main "HOL-Library.Log_Nat"
begin

section \<open>Python numbers\<close>

text \<open>
  A Python \<^verbatim>\<open>float\<close> is an IEEE-754 binary64 number and every arithmetic operation on
  floats rounds its exact result to the nearest representable number, ties to even.
  Floats are modelled as rationals, and the rounding is written out: \<open>fl q\<close> is \<open>q\<close>
  rounded to 53 significant bits. The exponent range is not bounded (no overflow to
  infinity, no subnormal numbers), which is exact for every magnitude between
  \<open>2^-1022\<close> and \<open>2^1024\<close>.
\<close>

definition round_half_even :: "rat \<Rightarrow> int" where
  "round_half_even q = (let f = \<lfloor>q\<rfloor>; d = q - of_int f in
     if d < 1 / 2 then f else if 1 / 2 < d then f + 1 else if even f then f else f + 1)"

definition pow2 :: "int \<Rightarrow> rat" where
  "pow2 e = (if 0 \<le> e then 2 ^ nat e else 1 / 2 ^ nat (- e))"

text \<open>\<open>expo q\<close> is the binary exponent \<open>\<lfloor>log\<^sub>2 q\<rfloor>\<close> of a positive rational.\<close>

definition expo :: "rat \<Rightarrow> int" where
  "expo q = (if 1 \<le> q then bitlen \<lfloor>q\<rfloor> - 1 else - bitlen (\<lceil>1 / q\<rceil> - 1))"

definition fl :: "rat \<Rightarrow> rat" where
  "fl q = (if q = 0 then 0 else
     let e = expo \<bar>q\<bar> - 52; m = round_half_even (\<bar>q\<bar> / pow2 e)
     in sgn q * of_int m * pow2 e)"


definition fadd :: "rat \<Rightarrow> rat \<Rightarrow> rat" where "fadd a b = fl (a + b)"
definition fsub :: "rat \<Rightarrow> rat \<Rightarrow> rat" where "fsub a b = fl (a - b)"
definition fmul :: "rat \<Rightarrow> rat \<Rightarrow> rat" where "fmul a b = fl (a * b)"
definition fdiv :: "rat \<Rightarrow> rat \<Rightarrow> rat" where "fdiv a b = fl (a / b)"

text \<open>A decimal literal such as \<^verbatim>\<open>0.2989\<close> denotes the nearest float.\<close>

definition flit :: "rat \<Rightarrow> rat" where "flit q = fl q"

text \<open>An \<^verbatim>\<open>int\<close> operand of a float operation is converted to a float first.\<close>

definition float_of_int :: "int \<Rightarrow> rat" where "float_of_int n = fl (of_int n)"

text \<open>\<^verbatim>\<open>int(x)\<close> on a float truncates toward zero.\<close>

definition py_int :: "rat \<Rightarrow> int" where
  "py_int q = (if 0 \<le> q then \<lfloor>q\<rfloor> else \<lceil>q\<rceil>)"

section \<open>Errors, images and the object store\<close>

datatype error =
    TypeError | ValueError | IndexError | AttributeError | ZeroDivisionError
  | UnboundLocalError | KeyError | ExternalError string

definition bnd :: "error + 'a \<Rightarrow> ('a \<Rightarrow> error + 'b) \<Rightarrow> error + 'b" where
  "bnd m f = (case m of Inl e \<Rightarrow> Inl e | Inr x \<Rightarrow> f x)"

text \<open>
  Pixel access on a PIL image yields a plain integer for a single-band image (modes
  \<^verbatim>\<open>L\<close> and \<^verbatim>\<open>1\<close>) and a tuple of three integers for an \<^verbatim>\<open>RGB\<close> image.
  \<open>pix img ! x ! y\<close> is the pixel at column \<open>x\<close> and line \<open>y\<close>; the source names the
  first coordinate \<^verbatim>\<open>row\<close> and lets it run over \<^verbatim>\<open>range(image.width)\<close>.
\<close>

datatype pixel = L int | RGB int int int

record image =
  width :: nat
  height :: nat
  pix :: "pixel list list"

text \<open>
  \<^verbatim>\<open>image_data[x, y]\<close>: a negative index counts from the far border, an index outside
  the image raises \<^verbatim>\<open>IndexError\<close>.
\<close>

definition getpx :: "image \<Rightarrow> int \<Rightarrow> int \<Rightarrow> error + pixel" where
  "getpx img x y =
     (let x' = (if x < 0 then int (width img) + x else x);
          y' = (if y < 0 then int (height img) + y else y)
      in if 0 \<le> x' \<and> x' < int (width img) \<and> 0 \<le> y' \<and> y' < int (height img)
         then Inr (pix img ! nat x' ! nat y') else Inl IndexError)"

definition putpx :: "image \<Rightarrow> int \<Rightarrow> int \<Rightarrow> pixel \<Rightarrow> error + image" where
  "putpx img x y p =
     (let x' = (if x < 0 then int (width img) + x else x);
          y' = (if y < 0 then int (height img) + y else y)
      in if 0 \<le> x' \<and> x' < int (width img) \<and> 0 \<le> y' \<and> y' < int (height img)
         then Inr (img\<lparr>pix := (pix img)[nat x' := (pix img ! nat x')[nat y' := p]]\<rparr>)
         else Inl IndexError)"

text \<open>The image that \<^verbatim>\<open>Image.new("RGB", (w, h))\<close> returns when it returns: all black.\<close>

definition black_image :: "nat \<Rightarrow> nat \<Rightarrow> image" where
  "black_image w h = \<lparr>width = w, height = h, pix = replicate w (replicate h (RGB 0 0 0))\<rparr>"

text \<open>
  Python values that the functions of \<^verbatim>\<open>helper.py\<close> pass around: \<^verbatim>\<open>None\<close>, a
  reference to an image object, a string, an uploaded file. Image objects live in a
  store; a reference is an index into it, and a new object is appended.
\<close>

datatype val = NoneV | ImageV nat | StrV string | FileV string

type_synonym heap = "image list"

text \<open>Using a value as an image: any attribute of an image on \<^verbatim>\<open>None\<close> or a string raises.\<close>

definition deref :: "heap \<Rightarrow> val \<Rightarrow> error + image" where
  "deref h v = (case v of ImageV r \<Rightarrow> if r < length h then Inr (h ! r) else Inl AttributeError
                | _ \<Rightarrow> Inl AttributeError)"

definition store :: "heap \<Rightarrow> val \<Rightarrow> image \<Rightarrow> heap" where
  "store h v img = (case v of ImageV r \<Rightarrow> h[r := img] | _ \<Rightarrow> h)"

section \<open>The libraries\<close>

text \<open>
  The code of Pillow and of the C library is not part of the repository, so their calls
  are parameters of the embedding:
  \<^item> \<^verbatim>\<open>convert('L')\<close>, \<^verbatim>\<open>point(f, '1')\<close> and \<^verbatim>\<open>thumbnail(size, resample)\<close> of the fast
    paths. What the embedding fixes is their documented interface: \<^verbatim>\<open>convert\<close> and
    \<^verbatim>\<open>point\<close> return a new image object, \<^verbatim>\<open>thumbnail\<close> changes the image object in place
    and returns \<^verbatim>\<open>None\<close>;
  \<^item> \<^verbatim>\<open>Image.new("RGB", (w, h))\<close>, which raises for a size that Pillow or the memory at
    hand does not allow, and otherwise returns \<open>black_image w h\<close>;
  \<^item> \<^verbatim>\<open>x ** n\<close> on a float, which is the \<^verbatim>\<open>pow\<close> of the C library: close to the exact
    power, but not always the nearest float.
\<close>

datatype resample = BILINEAR | BICUBIC

record pil =
  convert_L :: "image \<Rightarrow> error + image"
  point_1 :: "(int \<Rightarrow> int) \<Rightarrow> image \<Rightarrow> error + image"
  thumbnail :: "nat \<times> nat \<Rightarrow> resample \<Rightarrow> image \<Rightarrow> error + image"
  image_new :: "int \<Rightarrow> int \<Rightarrow> error + image"
  float_pow :: "rat \<Rightarrow> nat \<Rightarrow> rat"

section \<open>Loops\<close>

text \<open>\<^verbatim>\<open>for i in range(n): body\<close> over a state; an exception in the body ends the loop.\<close>

fun for_each :: "'a list \<Rightarrow> ('a \<Rightarrow> 's \<Rightarrow> error + 's) \<Rightarrow> 's \<Rightarrow> error + 's" where
  "for_each [] body s = Inr s"
| "for_each (i # is) body s = (case body i s of Inl e \<Rightarrow> Inl e | Inr s' \<Rightarrow> for_each is body s')"

definition for_range :: "nat \<Rightarrow> (nat \<Rightarrow> 's \<Rightarrow> error + 's) \<Rightarrow> 's \<Rightarrow> error + 's" where
  "for_range n body s = for_each [0..<n] body s"

section \<open>to_grayscale\<close>

text \<open>The luminance of one pixel, lines 33 to 37.\<close>

definition luminance :: "int \<Rightarrow> int \<Rightarrow> int \<Rightarrow> int" where
  "luminance red green blue =
     (let red_gray = fmul (flit (2989 / 10000)) (float_of_int red);
          green_gray = fmul (flit (5870 / 10000)) (float_of_int green);
          blue_gray = fmul (flit (1140 / 10000)) (float_of_int blue)
      in py_int (fadd (fadd red_gray green_gray) blue_gray))"

text \<open>The loop body, lines 31 to 39: unpacking a single-band pixel raises \<^verbatim>\<open>TypeError\<close>.\<close>

definition gray_step :: "nat \<Rightarrow> nat \<Rightarrow> image \<Rightarrow> error + image" where
  "gray_step row col img =
     bnd (getpx img (int row) (int col)) (\<lambda>p.
       case p of
         L v \<Rightarrow> Inl TypeError
       | RGB red green blue \<Rightarrow>
           (let gray = luminance red green blue
            in putpx img (int row) (int col) (RGB gray gray gray)))"

definition to_grayscale :: "pil \<Rightarrow> heap \<Rightarrow> val \<Rightarrow> bool \<Rightarrow> error + (val \<times> heap)" where
  "to_grayscale lib h imagev fast =
     (if fast then
        bnd (deref h imagev) (\<lambda>img.
        bnd (convert_L lib img) (\<lambda>img'.
          Inr (ImageV (length h), h @ [img'])))
      else
        bnd (deref h imagev) (\<lambda>img.
        bnd (for_range (width img) (\<lambda>row. for_range (height img) (\<lambda>col. gray_step row col)) img)
          (\<lambda>img'. Inr (imagev, store h imagev img'))))"

section \<open>binary_threshold\<close>

text \<open>The function handed to \<^verbatim>\<open>Image.point\<close> on line 59.\<close>

definition threshold_point :: "int \<Rightarrow> int \<Rightarrow> int" where
  "threshold_point threshold pixel = (if pixel < threshold then 0 else 255)"

text \<open>The loop body, lines 68 to 71: subscripting a single-band pixel raises \<^verbatim>\<open>TypeError\<close>.\<close>

definition threshold_step :: "int \<Rightarrow> nat \<Rightarrow> nat \<Rightarrow> image \<Rightarrow> error + image" where
  "threshold_step threshold row col img =
     bnd (getpx img (int row) (int col)) (\<lambda>p.
       case p of
         L v \<Rightarrow> Inl TypeError
       | RGB gray_value g b \<Rightarrow>
           if gray_value < threshold then putpx img (int row) (int col) (RGB 0 0 0)
           else putpx img (int row) (int col) (RGB 255 255 255))"

definition binary_threshold ::
  "pil \<Rightarrow> heap \<Rightarrow> val \<Rightarrow> int \<Rightarrow> bool \<Rightarrow> error + (val \<times> heap)" where
  "binary_threshold lib h imagev threshold fast =
     (if fast then
        bnd (deref h imagev) (\<lambda>img.
        bnd (point_1 lib (threshold_point threshold) img) (\<lambda>img'.
          Inr (ImageV (length h), h @ [img'])))
      else
        bnd (deref h imagev) (\<lambda>img.
        bnd (for_range (width img)
               (\<lambda>row. for_range (height img) (\<lambda>col. threshold_step threshold row col)) img)
          (\<lambda>img'. Inr (imagev, store h imagev img'))))"

section \<open>bilinear_filter\<close>

text \<open>One channel of the interpolated pixel, lines 118 and 119.\<close>

definition bilinear_channel ::
  "rat \<Rightarrow> int \<Rightarrow> rat \<Rightarrow> int \<Rightarrow> int \<Rightarrow> int \<Rightarrow> int \<Rightarrow> int \<Rightarrow> int" where
  "bilinear_channel x x1 y y1 top_left top_right bottom_left bottom_right =
     (let dx = fsub x (float_of_int x1); dy = fsub y (float_of_int y1)
      in py_int
           (fadd (fadd (fadd
              (fmul (fmul (fsub 1 dx) (fsub 1 dy)) (float_of_int top_left))
              (fmul (fmul dx (fsub 1 dy)) (float_of_int top_right)))
              (fmul (fmul (fsub 1 dx) dy) (float_of_int bottom_left)))
              (fmul (fmul dx dy) (float_of_int bottom_right))))"

text \<open>The pixel written at \<open>(row, col)\<close>, lines 106 to 124.\<close>

definition bilinear_pixel :: "image \<Rightarrow> rat \<Rightarrow> nat \<Rightarrow> nat \<Rightarrow> error + pixel" where
  "bilinear_pixel original scale_factor row col =
     (if scale_factor = 0 then Inl ZeroDivisionError
      else
        let x = fdiv (float_of_int (int row)) scale_factor;
            y = fdiv (float_of_int (int col)) scale_factor;
            x1 = py_int x; y1 = py_int y;
            x2 = min (x1 + 1) (int (width original) - 1);
            y2 = min (y1 + 1) (int (height original) - 1)
        in bnd (getpx original x1 y1) (\<lambda>top_left.
           bnd (getpx original x2 y1) (\<lambda>top_right.
           bnd (getpx original x1 y2) (\<lambda>bottom_left.
           bnd (getpx original x2 y2) (\<lambda>bottom_right.
             case (top_left, top_right, bottom_left, bottom_right) of
               (RGB r1 g1 b1, RGB r2 g2 b2, RGB r3 g3 b3, RGB r4 g4 b4) \<Rightarrow>
                 Inr (RGB (bilinear_channel x x1 y y1 r1 r2 r3 r4)
                          (bilinear_channel x x1 y y1 g1 g2 g3 g4)
                          (bilinear_channel x x1 y y1 b1 b2 b3 b4))
             | _ \<Rightarrow> Inl TypeError)))))"

definition bilinear_step :: "image \<Rightarrow> rat \<Rightarrow> nat \<Rightarrow> nat \<Rightarrow> image \<Rightarrow> error + image" where
  "bilinear_step original scale_factor row col resized =
     bnd (bilinear_pixel original scale_factor row col) (\<lambda>interpolated_pixel.
       putpx resized (int row) (int col) interpolated_pixel)"

text \<open>
  The image that the from-scratch branch builds in \<^verbatim>\<open>resized_img\<close>, lines 93 to 126.
\<close>

definition bilinear_resized :: "pil \<Rightarrow> image \<Rightarrow> rat \<Rightarrow> error + image" where
  "bilinear_resized lib original scale_factor =
     (let new_width = py_int (fmul (float_of_int (int (width original))) scale_factor);
          new_height = py_int (fmul (float_of_int (int (height original))) scale_factor)
      in bnd (image_new lib new_width new_height) (\<lambda>resized_img.
           for_range (nat new_width)
             (\<lambda>row. for_range (nat new_height) (\<lambda>col. bilinear_step original scale_factor row col))
             resized_img))"

text \<open>
  The fast branch assigns the result of \<^verbatim>\<open>thumbnail\<close>, which is \<^verbatim>\<open>None\<close>, to
  \<^verbatim>\<open>image\<close>. The from-scratch branch fills \<^verbatim>\<open>resized_img\<close>, a new object. Line 128
  returns \<^verbatim>\<open>image\<close> in both branches.
\<close>

definition bilinear_filter ::
  "pil \<Rightarrow> heap \<Rightarrow> val \<Rightarrow> rat \<Rightarrow> bool \<Rightarrow> error + (val \<times> heap)" where
  "bilinear_filter lib h imagev scale_factor fast =
     (if fast then
        bnd (deref h imagev) (\<lambda>img.
        bnd (thumbnail lib (300, 300) BILINEAR img) (\<lambda>img'.
          Inr (NoneV, store h imagev img')))
      else
        bnd (deref h imagev) (\<lambda>original.
        bnd (bilinear_resized lib original scale_factor) (\<lambda>resized_img.
          Inr (imagev, h @ [resized_img]))))"

section \<open>bicubic_filter\<close>

text \<open>The kernel \<^verbatim>\<open>cubic\<close>, lines 159 to 165, with \<^verbatim>\<open>cubic_factor = -0.5\<close>.\<close>

definition cubic :: "pil \<Rightarrow> rat \<Rightarrow> rat" where
  "cubic lib pixel =
     (let cubic_factor = - (1 / 2); a = \<bar>pixel\<bar>
      in if a \<le> 1 then
           fadd (fsub (fmul (fadd cubic_factor 2) (float_pow lib a 3))
                      (fmul (fadd cubic_factor 3) (float_pow lib a 2))) 1
         else if 1 < a \<and> a < 2 then
           fsub (fadd (fsub (fmul cubic_factor (float_pow lib a 3))
                            (fmul (fmul 5 cubic_factor) (float_pow lib a 2)))
                      (fmul (fmul 8 cubic_factor) a))
                (fmul 4 cubic_factor)
         else 0)"

text \<open>
  One entry of \<^verbatim>\<open>contributions\<close>, lines 184 and 185, as the three floats of the NumPy
  row. A single-band pixel is a scalar and is broadcast over the row.
\<close>

definition contribution :: "image \<Rightarrow> int \<Rightarrow> int \<Rightarrow> rat \<times> rat \<times> rat" where
  "contribution original x_val y_val =
     (if 0 \<le> x_val \<and> x_val < int (width original) \<and> 0 \<le> y_val \<and> y_val < int (height original)
      then (case pix original ! nat x_val ! nat y_val of
              RGB r g b \<Rightarrow> (float_of_int r, float_of_int g, float_of_int b)
            | L v \<Rightarrow> (float_of_int v, float_of_int v, float_of_int v))
      else (0, 0, 0))"

text \<open>One step of the accumulation on line 191, on the three channels.\<close>

definition accumulate :: "rat \<times> rat \<times> rat \<Rightarrow> rat \<times> rat \<times> rat \<Rightarrow> rat \<Rightarrow> rat \<Rightarrow> rat \<times> rat \<times> rat" where
  "accumulate acc c wx wy =
     (case (acc, c) of ((a0, a1, a2), (c0, c1, c2)) \<Rightarrow>
        (fadd a0 (fmul (fmul c0 wx) wy),
         fadd a1 (fmul (fmul c1 wx) wy),
         fadd a2 (fmul (fmul c2 wx) wy)))"

definition clip :: "rat \<Rightarrow> rat" where
  "clip v = min (max v 0) 255"

text \<open>The pixel written at \<open>(row, col)\<close>, lines 171 to 195.\<close>

definition bicubic_pixel :: "pil \<Rightarrow> image \<Rightarrow> rat \<Rightarrow> nat \<Rightarrow> nat \<Rightarrow> pixel" where
  "bicubic_pixel lib original scale_factor row col =
     (let scaled_row = fdiv (float_of_int (int row)) scale_factor;
          scaled_col = fdiv (float_of_int (int col)) scale_factor;
          scaled_row_iter = py_int scaled_row - 1;
          scaled_col_iter = py_int scaled_col - 1;
          interpolated_pixel =
            fold (\<lambda>x_index acc.
              fold (\<lambda>y_index acc.
                accumulate acc
                  (contribution original (scaled_row_iter + int x_index) (scaled_col_iter + int y_index))
                  (cubic lib (fsub (fsub scaled_row (float_of_int scaled_row_iter)) (float_of_int (int x_index))))
                  (cubic lib (fsub (fsub scaled_col (float_of_int scaled_col_iter)) (float_of_int (int y_index)))))
                [0..<4] acc)
              [0..<4] (0, 0, 0)
      in case interpolated_pixel of (v0, v1, v2) \<Rightarrow>
           RGB (py_int (clip v0)) (py_int (clip v1)) (py_int (clip v2)))"

definition bicubic_step ::
  "pil \<Rightarrow> image \<Rightarrow> rat \<Rightarrow> nat \<Rightarrow> nat \<Rightarrow> image \<Rightarrow> error + image" where
  "bicubic_step lib original scale_factor row col resized =
     (if scale_factor = 0 then Inl ZeroDivisionError
      else putpx resized (int row) (int col) (bicubic_pixel lib original scale_factor row col))"

definition bicubic_resized :: "pil \<Rightarrow> image \<Rightarrow> rat \<Rightarrow> error + image" where
  "bicubic_resized lib original scale_factor =
     (let new_width = py_int (fmul (float_of_int (int (width original))) scale_factor);
          new_height = py_int (fmul (float_of_int (int (height original))) scale_factor)
      in bnd (image_new lib new_width new_height) (\<lambda>resized_img.
           for_range (nat new_width)
             (\<lambda>row. for_range (nat new_height) (\<lambda>col. bicubic_step lib original scale_factor row col))
             resized_img))"

text \<open>
  Line 197 returns \<^verbatim>\<open>resized_img\<close>, a local variable that only the from-scratch branch
  assigns: after the fast branch the name is unbound.
\<close>

definition bicubic_filter ::
  "pil \<Rightarrow> heap \<Rightarrow> val \<Rightarrow> rat \<Rightarrow> bool \<Rightarrow> error + (val \<times> heap)" where
  "bicubic_filter lib h imagev scale_factor fast =
     (if fast then
        bnd (deref h imagev) (\<lambda>img.
        bnd (thumbnail lib (300, 300) BICUBIC img) (\<lambda>img'.
          Inl UnboundLocalError))
      else
        bnd (deref h imagev) (\<lambda>original.
        bnd (bicubic_resized lib original scale_factor) (\<lambda>resized_img.
          Inr (ImageV (length h), h @ [resized_img]))))"

section \<open>get_text_from_image\<close>

text \<open>
  The OCR engine, the language model and the file system are services of the
  environment. A detection is a triple of a bounding box, the recognised string and a
  confidence; a response of the language model has an attribute \<^verbatim>\<open>text\<close> and an
  attribute \<^verbatim>\<open>parts\<close>, and reading either may raise.
\<close>

type_synonym detection = "(int \<times> int) list \<times> string \<times> rat"

record response =
  resp_text :: "error + string"
  resp_parts :: "error + string list"

record services =
  image_open :: "val \<Rightarrow> error + image"
  image_save :: "image \<Rightarrow> string \<Rightarrow> error + unit"
  readtext :: "image \<Rightarrow> error + detection list"
  api_key_secret :: "error + string"
  generate_content :: "string \<Rightarrow> error + response"

text \<open>\<^verbatim>\<open>' '.join(text)\<close>\<close>

fun join_space :: "string list \<Rightarrow> string" where
  "join_space [] = []"
| "join_space [s] = s"
| "join_space (s # t # ts) = s @ '' '' @ join_space (t # ts)"

definition prompt_head :: string where
  "prompt_head = [CHR 0x0A] @
     ''    Consider yourself a doctor. This is a prescription/test report of a Patient'' @
     [CHR 0x0A] @ ''    ''"

definition prompt_tail :: string where
  "prompt_tail =
     ''    Analyse the Report and provide suggestions and your analysis as text. '' @
     ''If there is a difficult word. Try to explain the word in simple language. '' @
     ''Add a disclaimer to suggest the pateint to visit a doctor if necessary. '' @
     ''Do not use lines like I am not a doctor and other. '' @
     ''Use Patient name wherevar necessary. If telling for a desiase, '' @
     ''also tell expected symptons that the person might be feeling '' @
     [CHR 0x0A] @ ''        ''"

text \<open>The two f-strings, lines 235 to 240 and 271 to 276.\<close>

definition prompt_fast :: "string \<Rightarrow> string" where
  "prompt_fast text = prompt_head @ text @ [CHR 0x0A, CHR 0x0A] @ prompt_tail"

definition prompt_scratch :: "string \<Rightarrow> string" where
  "prompt_scratch text = prompt_head @ text @ ''  '' @ [CHR 0x0A, CHR 0x0A] @ prompt_tail"

text \<open>
  The handler at the end of both branches, lines 244 to 247 and 280 to 283:
  \<^verbatim>\<open>
  try : return response.text
  except :
      try : response.parts[0]
      except : return 'Sorry I couldn Understand the Prescription'
  \<close>
  When \<^verbatim>\<open>response.parts[0]\<close> does not raise, control falls off the end of the function,
  which returns \<^verbatim>\<open>None\<close>.
\<close>

definition response_result :: "response \<Rightarrow> val" where
  "response_result response =
     (case resp_text response of
        Inr t \<Rightarrow> StrV t
      | Inl e \<Rightarrow>
          (case resp_parts response of
             Inr (p # ps) \<Rightarrow> NoneV
           | _ \<Rightarrow> StrV ''Sorry I couldn Understand the Prescription''))"

text \<open>
  The calls to \<^verbatim>\<open>st.write\<close> and \<^verbatim>\<open>genai.configure\<close> have no result that the function
  uses and are left out. The from-scratch branch calls the four stages with their
  default \<^verbatim>\<open>fast = True\<close>.
\<close>

definition get_text_from_image ::
  "pil \<Rightarrow> services \<Rightarrow> heap \<Rightarrow> val \<Rightarrow> bool \<Rightarrow> error + val" where
  "get_text_from_image lib env h imagev fast =
     (if fast then
        bnd (image_open env imagev) (\<lambda>img.
        bnd (image_save env img ''Image.jpg'') (\<lambda>saved.
        bnd (readtext env img) (\<lambda>detections.
        bnd (generate_content env
               (prompt_fast (join_space (map (\<lambda>v. fst (snd v)) detections)))) (\<lambda>response.
          Inr (response_result response)))))
      else
        bnd (to_grayscale lib h imagev True) (\<lambda>(image1, h1).
        bnd (binary_threshold lib h1 image1 128 True) (\<lambda>(image2, h2).
        bnd (bilinear_filter lib h2 image2 2 True) (\<lambda>(image3, h3).
        bnd (bicubic_filter lib h3 image3 2 True) (\<lambda>(image4, h4).
        bnd (deref h4 image4) (\<lambda>img.
        bnd (readtext env img) (\<lambda>detections.
        bnd (api_key_secret env) (\<lambda>key.
        bnd (generate_content env
               (prompt_scratch (join_space (map (\<lambda>v. fst (snd v)) detections)))) (\<lambda>response.
          Inr (response_result response))))))))))"

section \<open>Predicates on images and concrete inputs\<close>

text \<open>A three-band image whose pixel grid has the shape its size announces.\<close>

definition is_rgb :: "pixel \<Rightarrow> bool" where
  "is_rgb p = (case p of RGB r g b \<Rightarrow> True | L v \<Rightarrow> False)"

definition rgb_image :: "image \<Rightarrow> bool" where
  "rgb_image img =
     (length (pix img) = width img \<and>
      list_all (\<lambda>column. length column = height img \<and> list_all is_rgb column) (pix img))"

definition channels_in_range :: "pixel \<Rightarrow> bool" where
  "channels_in_range p =
     (case p of
        RGB r g b \<Rightarrow> 0 \<le> r \<and> r \<le> 255 \<and> 0 \<le> g \<and> g \<le> 255 \<and> 0 \<le> b \<and> b \<le> 255
      | L v \<Rightarrow> 0 \<le> v \<and> v \<le> 255)"

definition image_in_range :: "image \<Rightarrow> bool" where
  "image_in_range img = list_all (list_all channels_in_range) (pix img)"

text \<open>What the two in-place loop bodies write for a three-band pixel.\<close>

definition gray_pixel :: "pixel \<Rightarrow> pixel" where
  "gray_pixel p =
     (case p of
        RGB red green blue \<Rightarrow>
          RGB (luminance red green blue) (luminance red green blue) (luminance red green blue)
      | L v \<Rightarrow> L v)"

definition threshold_pixel :: "int \<Rightarrow> pixel \<Rightarrow> pixel" where
  "threshold_pixel threshold p =
     (case p of
        RGB gray_value g b \<Rightarrow> if gray_value < threshold then RGB 0 0 0 else RGB 255 255 255
      | L v \<Rightarrow> L v)"

text \<open>
  Loop invariants. \<open>inplace_inv img g row k s\<close>: the image \<open>s\<close> has the shape of \<open>img\<close>,
  the pixels before position \<open>(row, k)\<close> in the order of the loops hold \<open>g\<close> of the
  original pixel, the others are untouched. \<open>fill_inv w h f row k s\<close>: the pixels of the
  new image before position \<open>(row, k)\<close> hold \<open>f x y\<close>.
\<close>

definition inplace_inv :: "image \<Rightarrow> (pixel \<Rightarrow> pixel) \<Rightarrow> nat \<Rightarrow> nat \<Rightarrow> image \<Rightarrow> bool" where
  "inplace_inv img g row k s \<longleftrightarrow>
     width s = width img \<and> height s = height img \<and> length (pix s) = width img \<and>
     (\<forall>x<width img. length (pix s ! x) = height img) \<and>
     (\<forall>x<width img. \<forall>y<height img.
        pix s ! x ! y =
          (if x < row \<or> (x = row \<and> y < k) then g (pix img ! x ! y) else pix img ! x ! y))"

definition fill_inv :: "nat \<Rightarrow> nat \<Rightarrow> (nat \<Rightarrow> nat \<Rightarrow> pixel) \<Rightarrow> nat \<Rightarrow> nat \<Rightarrow> image \<Rightarrow> bool" where
  "fill_inv w h f row k s \<longleftrightarrow>
     width s = w \<and> height s = h \<and> length (pix s) = w \<and>
     (\<forall>x<w. length (pix s ! x) = h) \<and>
     (\<forall>x<w. \<forall>y<h. (x < row \<or> (x = row \<and> y < k)) \<longrightarrow> pix s ! x ! y = f x y)"

text \<open>
  Concrete inputs for the examples. \<open>small_pil\<close> stands for the libraries on images that
  fit into 300 by 300 pixels: \<^verbatim>\<open>convert('L')\<close> with Pillow's integer luma weights,
  \<^verbatim>\<open>point\<close> on a single-band image, \<^verbatim>\<open>thumbnail\<close>, which leaves such an image as it is,
  \<^verbatim>\<open>Image.new\<close>, which returns the black image, and a \<^verbatim>\<open>pow\<close> that gives the nearest
  float (the powers in the examples below are floats themselves, so that every \<^verbatim>\<open>pow\<close>
  returns them). \<open>one_shot\<close> is an environment whose language model answers every prompt with the
  given response.
\<close>

definition small_pil :: pil where
  "small_pil =
     \<lparr>convert_L = (\<lambda>img. Inr (img\<lparr>pix := map (map (\<lambda>p. case p of
                      RGB r g b \<Rightarrow> L ((r * 19595 + g * 38470 + b * 7471 + 32768) div 65536)
                    | L v \<Rightarrow> L v)) (pix img)\<rparr>)),
      point_1 = (\<lambda>f img.
         if list_all (list_all (\<lambda>p. \<not> is_rgb p)) (pix img)
         then Inr (img\<lparr>pix := map (map (\<lambda>p. case p of L v \<Rightarrow> L (f v) | q \<Rightarrow> q)) (pix img)\<rparr>)
         else Inl (ExternalError ''a three-band image is outside the model'')),
      thumbnail = (\<lambda>size resample img.
         if width img \<le> fst size \<and> height img \<le> snd size then Inr img
         else Inl (ExternalError ''resampling is outside the model'')),
      image_new = (\<lambda>w h.
         if 0 \<le> w \<and> w \<le> 300 \<and> 0 \<le> h \<and> h \<le> 300 then Inr (black_image (nat w) (nat h))
         else Inl (ExternalError ''a larger image is outside the model'')),
      float_pow = (\<lambda>a n. fl (a ^ n))\<rparr>"

definition one_shot :: "response \<Rightarrow> services" where
  "one_shot response =
     \<lparr>image_open = (\<lambda>file. Inr \<lparr>width = 1, height = 1, pix = [[RGB 0 0 0]]\<rparr>),
      image_save = (\<lambda>img path. Inr ()),
      readtext = (\<lambda>img. Inr [([(0, 0), (9, 0), (9, 9), (0, 9)], ''Paracetamol'', 9 / 10),
                              ([(0, 10), (9, 10), (9, 19), (0, 19)], ''500mg'', 8 / 10)]),
      api_key_secret = Inr ''secret'',
      generate_content = (\<lambda>prompt. Inr response)\<rparr>"

definition red_pixel_image :: image where
  "red_pixel_image = \<lparr>width = 1, height = 1, pix = [[RGB 255 0 0]]\<rparr>"

definition green_pixel_image :: image where
  "green_pixel_image = \<lparr>width = 1, height = 1, pix = [[RGB 0 255 0]]\<rparr>"

definition white_pixel_image :: image where
  "white_pixel_image = \<lparr>width = 1, height = 1, pix = [[RGB 255 255 255]]\<rparr>"

definition gray_pixel_image :: image where
  "gray_pixel_image = \<lparr>width = 1, height = 1, pix = [[L 200]]\<rparr>"

definition two_pixel_image :: image where
  "two_pixel_image = \<lparr>width = 2, height = 1, pix = [[RGB 128 7 9], [RGB 127 250 3]]\<rparr>"

section \<open>Evaluation of concrete inputs\<close>

text \<open>
  Rules that let the simplifier compute \<open>fl\<close> and the image functions on numerals, and
  congruence rules that make it evaluate arguments before bodies.
\<close>

lemma bitlen_double: "0 < x \<Longrightarrow> bitlen (2 * x) = bitlen x + 1"
  using bitlen_pow2[of x 1] by (simp add: mult.commute)

lemma bitlen_One: "bitlen 1 = 1"
  by (simp add: bitlen_alt_def)

lemma bitlen_double1: "0 \<le> x \<Longrightarrow> bitlen (2 * x + 1) = bitlen x + 1"
proof -
  assume x: "0 \<le> x"
  then have pos: "2 * x + 1 > 0" by arith
  have d: "(2 * x + 1) div 2 = x" by presburger
  have "bitlen (2 * x + 1) = (if 2 * x + 1 > 0 then bitlen ((2 * x + 1) div 2) + 1 else 0)"
    by (rule compute_bitlen)
  also have "\<dots> = bitlen ((2 * x + 1) div 2) + 1"
    by (simp only: pos if_True)
  also have "\<dots> = bitlen x + 1"
    by (simp only: d)
  finally show ?thesis .
qed

lemma bitlen_Bit0: "bitlen (numeral (Num.Bit0 n)) = bitlen (numeral n) + 1"
proof -
  have b: "bitlen (2 * numeral n) = bitlen (numeral n) + 1"
    by (rule bitlen_double) simp
  show ?thesis by (subst numeral_Bit0_eq_double) (rule b)
qed

lemma bitlen_Bit1: "bitlen (numeral (Num.Bit1 n)) = bitlen (numeral n) + 1"
proof -
  have b: "bitlen (2 * numeral n + 1) = bitlen (numeral n) + 1"
    by (rule bitlen_double1) simp
  show ?thesis by (subst numeral_Bit1_eq_inc_double) (rule b)
qed

lemma bitlen_numeral_One: "bitlen (numeral Num.One) = 1"
  by (simp add: bitlen_One)

lemma floor_rat_numeral: "\<lfloor>numeral a / numeral b :: rat\<rfloor> = numeral a div numeral b"
  using floor_divide_of_int_eq[of "numeral a" "numeral b", where ?'a = rat] by simp

lemma ceiling_rat_numeral: "\<lceil>numeral a / numeral b :: rat\<rceil> = - ((- numeral a) div numeral b)"
  using ceiling_divide_eq_div[of "numeral a" "numeral b", where ?'a = rat] by simp

lemma floor_rat_one_numeral: "\<lfloor>1 / numeral b :: rat\<rfloor> = 1 div numeral b"
  using floor_divide_of_int_eq[of 1 "numeral b", where ?'a = rat] by simp

lemma ceiling_rat_one_numeral: "\<lceil>1 / numeral b :: rat\<rceil> = - ((- 1) div numeral b)"
  using ceiling_divide_eq_div[of 1 "numeral b", where ?'a = rat] by simp

lemma replicate_numeral: "replicate (numeral k) x = x # replicate (pred_numeral k) x"
  by (simp add: numeral_eq_Suc)

lemma bnd_cong_weak: "m = m' \<Longrightarrow> bnd m f = bnd m' f"
  by simp

lemma for_range_cong_weak: "n = n' \<Longrightarrow> s = s' \<Longrightarrow> for_range n body s = for_range n' body s'"
  by simp

lemma for_each_cong_weak: "xs = xs' \<Longrightarrow> s = s' \<Longrightarrow> for_each xs body s = for_each xs' body s'"
  by simp

lemma fold_cong_weak: "xs = xs' \<Longrightarrow> s = s' \<Longrightarrow> fold f xs s = fold f xs' s'"
  by simp

lemma bnd_Inl: "bnd (Inl e) f = Inl e"
  by (simp add: bnd_def)

lemma bnd_Inr: "bnd (Inr x) f = f x"
  by (simp add: bnd_def)

lemmas fl_eval = fl_def expo_def pow2_def round_half_even_def Let_def bitlen_Bit0 bitlen_Bit1 bitlen_One
  bitlen_numeral_One fadd_def fsub_def fmul_def fdiv_def flit_def float_of_int_def py_int_def
  floor_rat_numeral ceiling_rat_numeral power_divide floor_rat_one_numeral ceiling_rat_one_numeral

lemmas eval_cong = if_weak_cong let_weak_cong bnd_cong_weak for_range_cong_weak for_each_cong_weak fold_cong_weak
  sum.case_cong_weak pixel.case_cong_weak prod.case_cong_weak list.case_cong_weak val.case_cong_weak

lemma small_pil_convert_L:
  "convert_L small_pil img = Inr (img\<lparr>pix := map (map (\<lambda>p. case p of
      RGB r g b \<Rightarrow> L ((r * 19595 + g * 38470 + b * 7471 + 32768) div 65536)
    | L v \<Rightarrow> L v)) (pix img)\<rparr>)"
  by (simp add: small_pil_def)

lemma small_pil_point_1:
  "point_1 small_pil f img =
     (if list_all (list_all (\<lambda>p. \<not> is_rgb p)) (pix img)
      then Inr (img\<lparr>pix := map (map (\<lambda>p. case p of L v \<Rightarrow> L (f v) | q \<Rightarrow> q)) (pix img)\<rparr>)
      else Inl (ExternalError ''a three-band image is outside the model''))"
  by (simp add: small_pil_def)

lemma small_pil_thumbnail:
  "thumbnail small_pil sz resample img =
     (if width img \<le> fst sz \<and> height img \<le> snd sz then Inr img
      else Inl (ExternalError ''resampling is outside the model''))"
  by (simp add: small_pil_def)

lemma small_pil_image_new:
  "image_new small_pil w h =
     (if 0 \<le> w \<and> w \<le> 300 \<and> 0 \<le> h \<and> h \<le> 300 then Inr (black_image (nat w) (nat h))
      else Inl (ExternalError ''a larger image is outside the model''))"
  by (simp add: small_pil_def)

lemma small_pil_float_pow: "float_pow small_pil a n = fl (a ^ n)"
  by (simp add: small_pil_def)

lemmas small_pil_eval = small_pil_convert_L small_pil_point_1 small_pil_thumbnail
  small_pil_image_new small_pil_float_pow

lemmas img_eval = bnd_Inl bnd_Inr getpx_def putpx_def black_image_def deref_def store_def for_range_def
  gray_step_def to_grayscale_def threshold_step_def binary_threshold_def bilinear_pixel_def bilinear_step_def
  bilinear_resized_def bilinear_filter_def contribution_def accumulate_def clip_def bicubic_pixel_def bicubic_step_def
  bicubic_resized_def bicubic_filter_def luminance_def bilinear_channel_def cubic_def threshold_point_def
  upt_rec replicate_numeral fold_simps small_pil_eval

section \<open>Rounding error\<close>

lemma pow2_powi: "pow2 e = 2 powi e"
  by (simp add: pow2_def power_int_def inverse_eq_divide power_one_over field_simps)

lemma pow2_pos: "0 < pow2 e"
  by (simp add: pow2_powi)

lemma pow2_diff: "pow2 (k - 52) = pow2 k / 2 ^ 52"
  by (simp add: pow2_powi power_int_diff)

lemma round_half_even_error: "\<bar>of_int (round_half_even q) - q\<bar> \<le> 1 / 2"
  unfolding round_half_even_def Let_def
  by (auto simp: abs_if not_less) linarith+

lemma round_half_even_nonneg: "0 \<le> q \<Longrightarrow> 0 \<le> round_half_even q"
  unfolding round_half_even_def Let_def by auto

lemma expo_lower: assumes "0 < a" shows "pow2 (expo a) \<le> a"
proof (cases "1 \<le> a")
  case True
  then have fpos: "0 < \<lfloor>a\<rfloor>" by linarith
  then have b1: "1 \<le> bitlen \<lfloor>a\<rfloor>" by (simp add: bitlen_alt_def)
  have "(2::int) ^ nat (bitlen \<lfloor>a\<rfloor> - 1) \<le> \<lfloor>a\<rfloor>"
    using bitlen_bounds[OF fpos] by simp
  then have "(of_int ((2::int) ^ nat (bitlen \<lfloor>a\<rfloor> - 1)) :: rat) \<le> of_int \<lfloor>a\<rfloor>"
    by (simp only: of_int_le_iff)
  also have "\<dots> \<le> a" by (rule of_int_floor_le)
  finally have "(2::rat) ^ nat (bitlen \<lfloor>a\<rfloor> - 1) \<le> a"
    by simp
  then show ?thesis using True b1 by (simp add: expo_def pow2_def)
next
  case False
  then have a1: "a < 1" by simp
  then have "1 < 1 / a" using assms by simp
  then have c2: "2 \<le> \<lceil>1 / a\<rceil>" by linarith
  define n where "n = \<lceil>1 / a\<rceil> - 1"
  have npos: "0 < n" using c2 by (simp add: n_def)
  then have b1: "1 \<le> bitlen n" by (simp add: bitlen_alt_def)
  have "n < 2 ^ nat (bitlen n)" using bitlen_bounds[OF npos] by simp
  then have "\<lceil>1 / a\<rceil> \<le> 2 ^ nat (bitlen n)" by (simp add: n_def)
  then have "(of_int \<lceil>1 / a\<rceil> :: rat) \<le> of_int (2 ^ nat (bitlen n))"
    by (simp only: of_int_le_iff)
  moreover have "1 / a \<le> of_int \<lceil>1 / a\<rceil>" by (rule le_of_int_ceiling)
  ultimately have "1 / a \<le> of_int (2 ^ nat (bitlen n))" by (rule order_trans[rotated])
  then have "1 / a \<le> 2 ^ nat (bitlen n)" by simp
  then have "1 / 2 ^ nat (bitlen n) \<le> a"
    using assms by (simp add: field_simps)
  then show ?thesis using False b1 by (simp add: expo_def pow2_def n_def)
qed

lemma fl_zero: "fl 0 = 0"
  by (simp add: fl_def)

lemma fl_rel_error: "\<bar>fl q - q\<bar> \<le> \<bar>q\<bar> / 2 ^ 53"
proof (cases "q = 0")
  case True then show ?thesis by (simp add: fl_def)
next
  case False
  define a where "a = \<bar>q\<bar>"
  define e where "e = expo a - 52"
  define m where "m = round_half_even (a / pow2 e)"
  have apos: "0 < a" using False by (simp add: a_def)
  have flq: "fl q = sgn q * of_int m * pow2 e"
    using False by (simp add: fl_def Let_def a_def e_def m_def)
  have q: "q = sgn q * a" by (simp add: a_def sgn_mult_abs)
  have "fl q - q = sgn q * (of_int m * pow2 e - a)"
    using q flq by (simp add: algebra_simps)
  then have "\<bar>fl q - q\<bar> = \<bar>of_int m * pow2 e - a\<bar>"
    using False by (simp add: abs_mult abs_sgn_eq)
  also have "of_int m * pow2 e - a = pow2 e * (of_int m - a / pow2 e)"
    using pow2_pos[of e] by (simp add: field_simps)
  also have "\<bar>pow2 e * (of_int m - a / pow2 e)\<bar> = pow2 e * \<bar>of_int m - a / pow2 e\<bar>"
    using pow2_pos[of e] by (simp add: abs_mult)
  also have "\<dots> \<le> pow2 e * (1 / 2)"
    using round_half_even_error[of "a / pow2 e"] pow2_pos[of e]
    by (intro mult_left_mono) (simp_all add: m_def)
  also have "pow2 e = pow2 (expo a) / 2 ^ 52" by (simp add: e_def pow2_diff)
  also have "pow2 (expo a) / 2 ^ 52 * (1 / 2) \<le> a / 2 ^ 52 * (1 / 2)"
    using expo_lower[OF apos] by (simp add: divide_right_mono)
  finally show ?thesis by (simp add: a_def)
qed

lemma fl_nonneg: assumes "0 \<le> q" shows "0 \<le> fl q"
proof -
  have "\<bar>fl q - q\<bar> \<le> q / 2 ^ 53" using fl_rel_error[of q] assms by simp
  moreover have "q / 2 ^ 53 \<le> q" using assms by simp
  ultimately show ?thesis by linarith
qed

lemma fl_abs_error: assumes "\<bar>q\<bar> \<le> 256" shows "\<bar>fl q - q\<bar> \<le> 1 / 2 ^ 45"
proof -
  have "\<bar>q\<bar> / 2 ^ 53 \<le> 256 / 2 ^ 53" using assms by (simp add: divide_right_mono)
  then show ?thesis using fl_rel_error[of q] by simp
qed

lemma fl_bounds: assumes "\<bar>q\<bar> \<le> 256"
  shows "q - 1 / 2 ^ 45 \<le> fl q" and "fl q \<le> q + 1 / 2 ^ 45"
proof -
  have "fl q - q \<le> 1 / 2 ^ 45 \<and> - (fl q - q) \<le> 1 / 2 ^ 45"
    using fl_abs_error[OF assms] by (simp only: abs_le_iff)
  then show "q - 1 / 2 ^ 45 \<le> fl q" and "fl q \<le> q + 1 / 2 ^ 45"
    by linarith+
qed

lemma flit_red: "flit (2989 / 10000) = 5384503714484165 / 18014398509481984"
  by (simp add: fl_eval cong: eval_cong)

lemma flit_green: "flit (587 / 1000) = 2643612981266481 / 4503599627370496"
  by (simp add: fl_eval cong: eval_cong)

lemma flit_blue: "flit (57 / 500) = 8214565720323785 / 72057594037927936"
  by (simp add: fl_eval cong: eval_cong)

text \<open>The float sum of \<open>luminance\<close> before truncation is within \<open>2^-40\<close> of the exact sum.\<close>

lemma luminance_sum_error:
  fixes red green blue :: int
  assumes r: "0 \<le> red" "red \<le> 255" and g: "0 \<le> green" "green \<le> 255"
    and b: "0 \<le> blue" "blue \<le> 255"
  defines "s \<equiv> fadd (fadd (fmul (flit (2989 / 10000)) (float_of_int red))
                         (fmul (flit (5870 / 10000)) (float_of_int green)))
                   (fmul (flit (1140 / 10000)) (float_of_int blue))"
  shows "\<bar>s - of_int (2989 * red + 5870 * green + 1140 * blue) / 10000\<bar> \<le> 1 / 2 ^ 40"
    and "0 \<le> s"
proof -
  define R :: rat where "R = of_int red"
  define G :: rat where "G = of_int green"
  define B :: rat where "B = of_int blue"
  have R: "0 \<le> R" "R \<le> 255" using r by (simp_all add: R_def)
  have G: "0 \<le> G" "G \<le> 255" using g by (simp_all add: G_def)
  have B: "0 \<le> B" "B \<le> 255" using b by (simp_all add: B_def)
  define fr where "fr = fl R"
  define fg where "fg = fl G"
  define fb where "fb = fl B"
  have fr: "R - 1 / 2 ^ 45 \<le> fr" "fr \<le> R + 1 / 2 ^ 45" "0 \<le> fr"
    using fl_bounds[of R] fl_nonneg[of R] R by (simp_all add: fr_def)
  have fg: "G - 1 / 2 ^ 45 \<le> fg" "fg \<le> G + 1 / 2 ^ 45" "0 \<le> fg"
    using fl_bounds[of G] fl_nonneg[of G] G by (simp_all add: fg_def)
  have fb: "B - 1 / 2 ^ 45 \<le> fb" "fb \<le> B + 1 / 2 ^ 45" "0 \<le> fb"
    using fl_bounds[of B] fl_nonneg[of B] B by (simp_all add: fb_def)
  define pr where "pr = 5384503714484165 / 18014398509481984 * fr"
  define pg where "pg = 2643612981266481 / 4503599627370496 * fg"
  define pb where "pb = 8214565720323785 / 72057594037927936 * fb"
  define rg where "rg = fl pr"
  define gg where "gg = fl pg"
  define bg where "bg = fl pb"
  have pr: "0 \<le> pr" "pr \<le> 256" using fr R by (simp_all add: pr_def)
  have pg: "0 \<le> pg" "pg \<le> 256" using fg G by (simp_all add: pg_def)
  have pb: "0 \<le> pb" "pb \<le> 256" using fb B by (simp_all add: pb_def)
  have rg: "pr - 1 / 2 ^ 45 \<le> rg" "rg \<le> pr + 1 / 2 ^ 45" "0 \<le> rg"
    using fl_bounds[of pr] fl_nonneg[of pr] pr by (simp_all add: rg_def)
  have gg: "pg - 1 / 2 ^ 45 \<le> gg" "gg \<le> pg + 1 / 2 ^ 45" "0 \<le> gg"
    using fl_bounds[of pg] fl_nonneg[of pg] pg by (simp_all add: gg_def)
  have bg: "pb - 1 / 2 ^ 45 \<le> bg" "bg \<le> pb + 1 / 2 ^ 45" "0 \<le> bg"
    using fl_bounds[of pb] fl_nonneg[of pb] pb by (simp_all add: bg_def)
  define s1 where "s1 = fl (rg + gg)"
  have rgg: "0 \<le> rg + gg" "rg + gg \<le> 256"
    using rg gg fr fg R G by (simp_all add: pr_def pg_def)
  have s1: "rg + gg - 1 / 2 ^ 45 \<le> s1" "s1 \<le> rg + gg + 1 / 2 ^ 45" "0 \<le> s1"
    using fl_bounds[of "rg + gg"] fl_nonneg[of "rg + gg"] rgg by (simp_all add: s1_def)
  have s1b: "0 \<le> s1 + bg" "s1 + bg \<le> 256"
    using s1 rg gg bg fr fg fb R G B by (simp_all add: pr_def pg_def pb_def)
  have s_eq: "s = fl (s1 + bg)"
    by (simp add: s_def s1_def rg_def gg_def bg_def pr_def pg_def pb_def fr_def fg_def fb_def
        R_def G_def B_def fadd_def fmul_def float_of_int_def flit_red flit_green flit_blue)
  have s2: "s1 + bg - 1 / 2 ^ 45 \<le> s" "s \<le> s1 + bg + 1 / 2 ^ 45" "0 \<le> s"
    using fl_bounds[of "s1 + bg"] fl_nonneg[of "s1 + bg"] s1b by (simp_all add: s_eq)
  have E: "of_int (2989 * red + 5870 * green + 1140 * blue) / 10000
           = 2989 / 10000 * R + 5870 / 10000 * G + 1140 / 10000 * B"
    by (simp add: R_def G_def B_def field_simps)
  show "\<bar>s - of_int (2989 * red + 5870 * green + 1140 * blue) / 10000\<bar> \<le> 1 / 2 ^ 40"
    unfolding E abs_le_iff
    using s2 s1 rg gg bg fr fg fb R G B by (simp add: pr_def pg_def pb_def)
  show "0 \<le> s" by (rule s2)
qed

lemma pow2_mono: "a \<le> b \<Longrightarrow> pow2 a \<le> pow2 b"
  by (simp add: pow2_powi power_int_increasing)

lemma pow2_add_nat: "pow2 (e + int k) = 2 ^ k * pow2 e"
  by (simp add: pow2_powi power_int_add mult.commute)

lemma pow2_nat: "pow2 (int k) = 2 ^ k"
  by (simp add: pow2_def)

lemma expo_upper: assumes "0 < a" shows "a < pow2 (expo a + 1)"
proof (cases "1 \<le> a")
  case True
  then have fpos: "0 < \<lfloor>a\<rfloor>" by linarith
  then have b1: "1 \<le> bitlen \<lfloor>a\<rfloor>" by (simp add: bitlen_alt_def)
  have "\<lfloor>a\<rfloor> < 2 ^ nat (bitlen \<lfloor>a\<rfloor>)"
    using bitlen_bounds[OF fpos] by simp
  then have "\<lfloor>a\<rfloor> + 1 \<le> 2 ^ nat (bitlen \<lfloor>a\<rfloor>)" by simp
  then have "(of_int (\<lfloor>a\<rfloor> + 1) :: rat) \<le> of_int (2 ^ nat (bitlen \<lfloor>a\<rfloor>))"
    by (simp only: of_int_le_iff)
  moreover have "a < of_int (\<lfloor>a\<rfloor> + 1)" by linarith
  ultimately have "a < of_int (2 ^ nat (bitlen \<lfloor>a\<rfloor>))" by (rule less_le_trans[rotated])
  then have "a < 2 ^ nat (bitlen \<lfloor>a\<rfloor>)" by simp
  then show ?thesis using True b1 by (simp add: expo_def pow2_def)
next
  case False
  then have a1: "a < 1" by simp
  then have "1 < 1 / a" using assms by simp
  then have c2: "2 \<le> \<lceil>1 / a\<rceil>" by linarith
  define n where "n = \<lceil>1 / a\<rceil> - 1"
  have npos: "0 < n" using c2 by (simp add: n_def)
  then have b1: "1 \<le> bitlen n" by (simp add: bitlen_alt_def)
  have "2 ^ nat (bitlen n - 1) \<le> n" using bitlen_bounds[OF npos] by simp
  then have "(of_int (2 ^ nat (bitlen n - 1)) :: rat) \<le> of_int n"
    by (simp only: of_int_le_iff)
  moreover have "(of_int n :: rat) < 1 / a" by (simp add: n_def) linarith
  ultimately have "(of_int (2 ^ nat (bitlen n - 1)) :: rat) < 1 / a" by (rule le_less_trans)
  then have "(2::rat) ^ nat (bitlen n - 1) < 1 / a" by simp
  then have lt: "a < 1 / 2 ^ nat (bitlen n - 1)"
    using assms by (simp add: field_simps)
  have "pow2 (1 - bitlen n) = 1 / 2 ^ nat (bitlen n - 1)"
    using b1 by (cases "bitlen n = 1") (simp_all add: pow2_def)
  then show ?thesis using False lt by (simp add: expo_def n_def)
qed

lemma expo_unique:
  assumes "0 < a" "pow2 k \<le> a" "a < pow2 (k + 1)"
  shows "expo a = k"
proof (rule ccontr)
  assume ne: "expo a \<noteq> k"
  show False
  proof (cases "expo a < k")
    case True
    then have "pow2 (expo a + 1) \<le> pow2 k" by (intro pow2_mono) simp
    then show False using expo_upper[OF assms(1)] assms(2) by linarith
  next
    case False
    then have "k + 1 \<le> expo a" using ne by simp
    then have "pow2 (k + 1) \<le> pow2 (expo a)" by (rule pow2_mono)
    then show False using expo_lower[OF assms(1)] assms(3) by linarith
  qed
qed

lemma round_half_even_of_int: "round_half_even (of_int m) = m"
  by (simp add: round_half_even_def)

lemma fl_sgn: "fl q = sgn q * fl \<bar>q\<bar>"
  by (cases "q = 0") (simp_all add: fl_def Let_def sgn_if)

lemma fl_mantissa:
  assumes "0 < q"
  defines "e \<equiv> expo q - 52"
  defines "m \<equiv> round_half_even (q / pow2 e)"
  shows "fl q = of_int m * pow2 e" and "2 ^ 52 \<le> m" and "m \<le> 2 ^ 53"
proof -
  show "fl q = of_int m * pow2 e"
    using assms(1) by (simp add: fl_def Let_def e_def m_def)
  have "expo q = e + int 52" by (simp add: e_def)
  then have p: "pow2 (expo q) = 2 ^ 52 * pow2 e"
    by (simp only: pow2_add_nat)
  have "expo q + 1 = e + int 53" by (simp add: e_def)
  then have p1: "pow2 (expo q + 1) = 2 ^ 53 * pow2 e"
    by (simp only: pow2_add_nat)
  have lo: "2 ^ 52 \<le> q / pow2 e"
    using expo_lower[OF assms(1)] pow2_pos[of e] unfolding p by (simp add: field_simps)
  have hi: "q / pow2 e < 2 ^ 53"
    using expo_upper[OF assms(1)] pow2_pos[of e] unfolding p1 by (simp add: field_simps)
  have err: "\<bar>of_int m - q / pow2 e\<bar> \<le> 1 / 2"
    unfolding m_def by (rule round_half_even_error)
  have "(2::rat) ^ 52 - 1 / 2 \<le> of_int m" using lo err by linarith
  then have "(of_int (2 ^ 52 - 1) :: rat) < of_int m" by simp
  then have "2 ^ 52 - 1 < m" by (simp only: of_int_less_iff)
  then show "2 ^ 52 \<le> m" by simp
  have "of_int m < (2::rat) ^ 53 + 1 / 2" using hi err by linarith
  then have "(of_int m :: rat) < of_int (2 ^ 53 + 1)" by simp
  then have "m < 2 ^ 53 + 1" by (simp only: of_int_less_iff)
  then show "m \<le> 2 ^ 53" by simp
qed

lemma fl_pos_unfold:
  assumes "0 < q" "expo q = e + 52"
  shows "fl q = of_int (round_half_even (q / pow2 e)) * pow2 e"
proof -
  have "expo q - 52 = e" using assms(2) by simp
  then show ?thesis using assms(1) by (simp add: fl_def Let_def)
qed

lemma pow2_shift:
  "pow2 (e + 52) = 2 ^ 52 * pow2 e"
  "pow2 (e + 52 + 1) = 2 ^ 53 * pow2 e"
  "pow2 (e + 53) = 2 ^ 53 * pow2 e"
  "pow2 (e + 53 + 1) = 2 ^ 54 * pow2 e"
proof -
  have "e + 52 = e + int 52" by simp
  then show "pow2 (e + 52) = 2 ^ 52 * pow2 e" by (simp only: pow2_add_nat)
  have "e + 52 + 1 = e + int 53" by simp
  then show "pow2 (e + 52 + 1) = 2 ^ 53 * pow2 e" by (simp only: pow2_add_nat)
  have "e + 53 = e + int 53" by simp
  then show "pow2 (e + 53) = 2 ^ 53 * pow2 e" by (simp only: pow2_add_nat)
  have "e + 53 + 1 = e + int 54" by simp
  then show "pow2 (e + 53 + 1) = 2 ^ 54 * pow2 e" by (simp only: pow2_add_nat)
qed

lemma fl_of_mantissa:
  assumes "2 ^ 52 \<le> m" "m \<le> 2 ^ 53"
  shows "fl (of_int m * pow2 e) = of_int m * pow2 e"
proof -
  define r where "r = of_int m * pow2 e"
  have mpos: "(0::rat) < of_int m" using assms(1) by simp
  have rpos: "0 < r" using mpos pow2_pos[of e] by (simp add: r_def)
  have m52: "(2::rat) ^ 52 \<le> of_int m"
    using assms(1) of_int_le_iff[of "2 ^ 52" m, where ?'a = rat] by simp
  show ?thesis
  proof (cases "m = 2 ^ 53")
    case True
    then have r: "r = 2 ^ 53 * pow2 e" by (simp add: r_def)
    have "pow2 (e + 53) \<le> r" unfolding pow2_shift r by simp
    moreover have "r < pow2 (e + 53 + 1)"
      unfolding pow2_shift r using pow2_pos[of e] by simp
    ultimately have ex: "expo r = e + 53" using rpos by (rule expo_unique[rotated])
    define e1 where "e1 = e + int 1"
    have pe1: "pow2 e1 = 2 * pow2 e" unfolding e1_def by (simp only: pow2_add_nat) simp
    have ex1: "expo r = e1 + 52" using ex by (simp add: e1_def)
    have "r / pow2 e1 = 2 ^ 52"
      using pow2_pos[of e] by (simp add: r pe1)
    then have "r / pow2 e1 = of_int (2 ^ 52)" by simp
    then have "round_half_even (r / pow2 e1) = 2 ^ 52"
      by (simp only: round_half_even_of_int)
    then have "fl r = 2 ^ 52 * pow2 e1"
      using fl_pos_unfold[OF rpos ex1] by simp
    also have "\<dots> = r"
      by (simp add: r pe1)
    finally show ?thesis by (simp add: r_def)
  next
    case False
    then have "m < 2 ^ 53" using assms(2) by simp
    then have "m + 1 \<le> 2 ^ 53" by simp
    then have "(of_int (m + 1) :: rat) \<le> of_int (2 ^ 53)" by (simp only: of_int_le_iff)
    then have mlt: "(of_int m :: rat) < 2 ^ 53" by simp
    have "pow2 (e + 52) \<le> r"
      unfolding pow2_shift r_def using m52 pow2_pos[of e] by simp
    moreover have "r < pow2 (e + 52 + 1)"
      unfolding pow2_shift r_def using mlt pow2_pos[of e] by simp
    ultimately have ex: "expo r = e + 52" using rpos by (rule expo_unique[rotated])
    have "r / pow2 e = of_int m" using pow2_pos[of e] by (simp add: r_def)
    then have "round_half_even (r / pow2 e) = m" by (simp only: round_half_even_of_int)
    then have "fl r = of_int m * pow2 e"
      using fl_pos_unfold[OF rpos ex] by simp
    then show ?thesis by (simp add: r_def)
  qed
qed

lemma fl_idem_pos: assumes "0 < q" shows "fl (fl q) = fl q"
  using fl_mantissa[OF assms] fl_of_mantissa by simp

lemma fl_pos: assumes "0 < q" shows "0 < fl q"
proof -
  have "(0::rat) < of_int (round_half_even (q / pow2 (expo q - 52)))"
    using fl_mantissa(2)[OF assms] by simp
  then show ?thesis using fl_mantissa(1)[OF assms] pow2_pos[of "expo q - 52"] by simp
qed

lemma fl_idem: "fl (fl q) = fl q"
proof (cases "q = 0")
  case True
  then show ?thesis by (simp add: fl_zero)
next
  case False
  then have a: "0 < \<bar>q\<bar>" by simp
  have "fl (fl q) = fl (sgn q * fl \<bar>q\<bar>)" using fl_sgn[of q] by simp
  also have "\<dots> = sgn (sgn q * fl \<bar>q\<bar>) * fl \<bar>sgn q * fl \<bar>q\<bar>\<bar>" by (rule fl_sgn)
  also have "sgn (sgn q * fl \<bar>q\<bar>) = sgn q"
    using fl_pos[OF a] False by (simp add: sgn_mult)
  also have "\<bar>sgn q * fl \<bar>q\<bar>\<bar> = fl \<bar>q\<bar>"
    using fl_pos[OF a] False by (simp add: abs_mult)
  also have "fl (fl \<bar>q\<bar>) = fl \<bar>q\<bar>" by (rule fl_idem_pos[OF a])
  also have "sgn q * fl \<bar>q\<bar> = fl q" by (rule fl_sgn[symmetric])
  finally show ?thesis .
qed



lemma fl_abs_error_gen: assumes "\<bar>q\<bar> \<le> B" shows "\<bar>fl q - q\<bar> \<le> B / 2 ^ 53"
proof -
  have "\<bar>q\<bar> / 2 ^ 53 \<le> B / 2 ^ 53" using assms by (simp add: divide_right_mono)
  then show ?thesis using fl_rel_error[of q] by linarith
qed

section \<open>Loop rules\<close>

lemma for_each_append:
  "for_each (xs @ ys) body s = bnd (for_each xs body s) (for_each ys body)"
  by (induction xs arbitrary: s) (auto simp: bnd_def split: sum.splits)

lemma for_range_0: "for_range 0 body s = Inr s"
  by (simp add: for_range_def)

lemma for_range_Suc: "for_range (Suc n) body s = bnd (for_range n body s) (body n)"
  by (simp add: for_range_def for_each_append bnd_def split: sum.splits)

lemma for_range_rule:
  assumes init: "I 0 s"
    and step: "\<And>i t. i < n \<Longrightarrow> I i t \<Longrightarrow> \<exists>t'. body i t = Inr t' \<and> I (Suc i) t'"
  shows "\<exists>s'. for_range n body s = Inr s' \<and> I n s'"
proof -
  have "k \<le> n \<Longrightarrow> \<exists>s'. for_range k body s = Inr s' \<and> I k s'" for k
  proof (induction k)
    case 0
    then show ?case using init by (simp add: for_range_0)
  next
    case (Suc k)
    then obtain t where t: "for_range k body s = Inr t" "I k t" by auto
    from step[of k t] Suc.prems t obtain t' where "body k t = Inr t'" "I (Suc k) t'" by auto
    then show ?case using t by (simp add: for_range_Suc bnd_Inr)
  qed
  then show ?thesis by simp
qed

lemma inplace_loop:
  fixes step :: "nat \<Rightarrow> nat \<Rightarrow> image \<Rightarrow> error + image"
  assumes shape: "length (pix img) = width img" "\<forall>x<width img. length (pix img ! x) = height img"
    and ok: "\<forall>x<width img. \<forall>y<height img. is_ok (pix img ! x ! y)"
    and step: "\<And>row col s. row < width s \<Longrightarrow> col < height s \<Longrightarrow> length (pix s) = width s \<Longrightarrow>
        length (pix s ! row) = height s \<Longrightarrow> is_ok (pix s ! row ! col) \<Longrightarrow>
        step row col s = Inr (s\<lparr>pix := (pix s)[row := (pix s ! row)[col := g (pix s ! row ! col)]]\<rparr>)"
  shows "\<exists>img'. for_range (width img) (\<lambda>row. for_range (height img) (\<lambda>col. step row col)) img = Inr img'
           \<and> inplace_inv img g (width img) 0 img'"
proof (rule for_range_rule[where I = "\<lambda>row. inplace_inv img g row 0"])
  show "inplace_inv img g 0 0 img"
    using shape by (simp add: inplace_inv_def)
next
  fix row t
  assume row: "row < width img" and inv: "inplace_inv img g row 0 t"
  have "\<exists>t'. for_range (height img) (\<lambda>col. step row col) t = Inr t' \<and> inplace_inv img g row (height img) t'"
  proof (rule for_range_rule[where I = "\<lambda>col. inplace_inv img g row col"])
    show "inplace_inv img g row 0 t" by (rule inv)
  next
    fix col u
    assume col: "col < height img" and u: "inplace_inv img g row col u"
    have px: "pix u ! row ! col = pix img ! row ! col"
      using u row col by (simp add: inplace_inv_def)
    have "step row col u = Inr (u\<lparr>pix := (pix u)[row := (pix u ! row)[col := g (pix u ! row ! col)]]\<rparr>)"
      using u row col ok px by (intro step) (simp_all add: inplace_inv_def)
    moreover have "inplace_inv img g row (Suc col)
        (u\<lparr>pix := (pix u)[row := (pix u ! row)[col := g (pix u ! row ! col)]]\<rparr>)"
      using u row col px
      by (auto simp add: inplace_inv_def nth_list_update less_Suc_eq)
    ultimately show "\<exists>t'. step row col u = Inr t' \<and> inplace_inv img g row (Suc col) t'"
      by simp
  qed
  then obtain t' where t': "for_range (height img) (\<lambda>col. step row col) t = Inr t'"
    "inplace_inv img g row (height img) t'" by auto
  have "inplace_inv img g (Suc row) 0 t'"
    using t'(2) by (auto simp add: inplace_inv_def less_Suc_eq)
  then show "\<exists>t'. for_range (height img) (\<lambda>col. step row col) t = Inr t' \<and> inplace_inv img g (Suc row) 0 t'"
    using t'(1) by simp
qed

section \<open>The in-place stages on three-band images\<close>

lemma rgb_image_iff:
  "rgb_image img \<longleftrightarrow>
     length (pix img) = width img \<and>
     (\<forall>x<width img. length (pix img ! x) = height img \<and>
        (\<forall>y<height img. is_rgb (pix img ! x ! y)))"
  by (auto simp add: rgb_image_def list_all_length)

lemma image_in_range_nth:
  "image_in_range img \<Longrightarrow> x < length (pix img) \<Longrightarrow> y < length (pix img ! x) \<Longrightarrow>
   channels_in_range (pix img ! x ! y)"
  by (simp add: image_in_range_def list_all_length)

lemma getpx_inside:
  "row < width s \<Longrightarrow> col < height s \<Longrightarrow> getpx s (int row) (int col) = Inr (pix s ! row ! col)"
  by (simp add: getpx_def)

lemma putpx_inside:
  "row < width s \<Longrightarrow> col < height s \<Longrightarrow>
   putpx s (int row) (int col) p = Inr (s\<lparr>pix := (pix s)[row := (pix s ! row)[col := p]]\<rparr>)"
  by (simp add: putpx_def)

lemma gray_step_rgb:
  assumes "row < width s" "col < height s" "is_rgb (pix s ! row ! col)"
  shows "gray_step row col s
    = Inr (s\<lparr>pix := (pix s)[row := (pix s ! row)[col := gray_pixel (pix s ! row ! col)]]\<rparr>)"
  using assms
  by (cases "pix s ! row ! col")
     (simp_all add: gray_step_def getpx_inside putpx_inside bnd_Inr gray_pixel_def is_rgb_def Let_def)

lemma threshold_step_rgb:
  assumes "row < width s" "col < height s" "is_rgb (pix s ! row ! col)"
  shows "threshold_step threshold row col s
    = Inr (s\<lparr>pix := (pix s)[row := (pix s ! row)[col := threshold_pixel threshold (pix s ! row ! col)]]\<rparr>)"
  using assms
  by (cases "pix s ! row ! col")
     (simp_all add: threshold_step_def getpx_inside putpx_inside bnd_Inr threshold_pixel_def is_rgb_def)

lemma to_grayscale_scratch:
  assumes "r < length h" "rgb_image (h ! r)"
  shows "\<exists>img'. to_grayscale lib h (ImageV r) False = Inr (ImageV r, h[r := img'])
           \<and> inplace_inv (h ! r) gray_pixel (width (h ! r)) 0 img'"
proof -
  from inplace_loop[of "h ! r" is_rgb gray_step gray_pixel] assms(2)
  obtain img' where
    "for_range (width (h ! r)) (\<lambda>row. for_range (height (h ! r)) (\<lambda>col. gray_step row col)) (h ! r)
       = Inr img'"
    "inplace_inv (h ! r) gray_pixel (width (h ! r)) 0 img'"
    by (auto simp add: rgb_image_iff gray_step_rgb)
  then show ?thesis using assms(1)
    by (intro exI[of _ img']) (simp add: to_grayscale_def deref_def store_def bnd_Inr)
qed

lemma binary_threshold_scratch:
  assumes "r < length h" "rgb_image (h ! r)"
  shows "\<exists>img'. binary_threshold lib h (ImageV r) threshold False = Inr (ImageV r, h[r := img'])
           \<and> inplace_inv (h ! r) (threshold_pixel threshold) (width (h ! r)) 0 img'"
proof -
  from inplace_loop[of "h ! r" is_rgb "threshold_step threshold" "threshold_pixel threshold"] assms(2)
  obtain img' where
    "for_range (width (h ! r))
       (\<lambda>row. for_range (height (h ! r)) (\<lambda>col. threshold_step threshold row col)) (h ! r)
       = Inr img'"
    "inplace_inv (h ! r) (threshold_pixel threshold) (width (h ! r)) 0 img'"
    by (auto simp add: rgb_image_iff threshold_step_rgb)
  then show ?thesis using assms(1)
    by (intro exI[of _ img']) (simp add: binary_threshold_def deref_def store_def bnd_Inr)
qed

lemma to_grayscale_scratch_pixels:
  assumes "r < length h" "rgb_image (h ! r)"
  shows "\<exists>img'. to_grayscale lib h (ImageV r) False = Inr (ImageV r, h[r := img'])
           \<and> width img' = width (h ! r) \<and> height img' = height (h ! r)
           \<and> (\<forall>x<width (h ! r). \<forall>y<height (h ! r). \<forall>red green blue.
                 pix (h ! r) ! x ! y = RGB red green blue \<longrightarrow>
                 pix img' ! x ! y = RGB (luminance red green blue) (luminance red green blue)
                                        (luminance red green blue))"
proof -
  from to_grayscale_scratch[OF assms, of lib] obtain img' where
    e: "to_grayscale lib h (ImageV r) False = Inr (ImageV r, h[r := img'])"
    and inv: "inplace_inv (h ! r) gray_pixel (width (h ! r)) 0 img'"
    by auto
  have "width img' = width (h ! r)" "height img' = height (h ! r)"
    using inv by (simp_all add: inplace_inv_def)
  moreover have "\<forall>x<width (h ! r). \<forall>y<height (h ! r). \<forall>red green blue.
      pix (h ! r) ! x ! y = RGB red green blue \<longrightarrow>
      pix img' ! x ! y = RGB (luminance red green blue) (luminance red green blue)
                             (luminance red green blue)"
    using inv by (simp add: inplace_inv_def gray_pixel_def)
  ultimately show ?thesis using e by blast
qed

lemma binary_threshold_scratch_pixels:
  assumes "r < length h" "rgb_image (h ! r)"
  shows "\<exists>img'. binary_threshold lib h (ImageV r) threshold False = Inr (ImageV r, h[r := img'])
           \<and> width img' = width (h ! r) \<and> height img' = height (h ! r)
           \<and> (\<forall>x<width (h ! r). \<forall>y<height (h ! r). \<forall>l g b.
                 pix (h ! r) ! x ! y = RGB l g b \<longrightarrow>
                 pix img' ! x ! y = (if l < threshold then RGB 0 0 0 else RGB 255 255 255))"
proof -
  from binary_threshold_scratch[OF assms, of lib threshold] obtain img' where
    e: "binary_threshold lib h (ImageV r) threshold False = Inr (ImageV r, h[r := img'])"
    and inv: "inplace_inv (h ! r) (threshold_pixel threshold) (width (h ! r)) 0 img'"
    by auto
  have "width img' = width (h ! r)" "height img' = height (h ! r)"
    using inv by (simp_all add: inplace_inv_def)
  moreover have "\<forall>x<width (h ! r). \<forall>y<height (h ! r). \<forall>l g b.
      pix (h ! r) ! x ! y = RGB l g b \<longrightarrow>
      pix img' ! x ! y = (if l < threshold then RGB 0 0 0 else RGB 255 255 255)"
    using inv by (simp add: inplace_inv_def threshold_pixel_def)
  ultimately show ?thesis using e by blast
qed

section \<open>The luminance of a pixel\<close>

lemma luminance_floor:
  fixes red green blue :: int
  assumes r: "0 \<le> red" "red \<le> 255" and g: "0 \<le> green" "green \<le> 255"
    and b: "0 \<le> blue" "blue \<le> 255"
  defines "N \<equiv> 2989 * red + 5870 * green + 1140 * blue"
  shows "luminance red green blue = N div 10000
          \<or> (N mod 10000 = 0 \<and> luminance red green blue = N div 10000 - 1)"
    and "0 \<le> luminance red green blue" and "luminance red green blue \<le> 254"
proof -
  define s where "s = fadd (fadd (fmul (flit (2989 / 10000)) (float_of_int red))
                         (fmul (flit (5870 / 10000)) (float_of_int green)))
                   (fmul (flit (1140 / 10000)) (float_of_int blue))"
  have err: "\<bar>s - of_int N / 10000\<bar> \<le> 1 / 2 ^ 40" and s0: "0 \<le> s"
    using luminance_sum_error[OF r g b] by (simp_all add: s_def N_def)
  have lum: "luminance red green blue = \<lfloor>s\<rfloor>"
    using s0 by (simp add: luminance_def Let_def py_int_def s_def)
  define d where "d = N div 10000"
  define m where "m = N mod 10000"
  have N: "N = 10000 * d + m" by (simp add: d_def m_def)
  have m: "0 \<le> m" "m \<le> 9999" by (simp_all add: m_def) 
  define D :: rat where "D = of_int d"
  define M :: rat where "M = of_int m"
  have E: "of_int N / 10000 = D + M / 10000" by (simp add: N D_def M_def)
  have M: "0 \<le> M" "M \<le> 9999" using m by (simp_all add: M_def)
  have eps: "(1::rat) / 2 ^ 40 < 1 / 20000" by simp
  have lo: "D + M / 10000 - 1 / 2 ^ 40 \<le> s" and hi: "s \<le> D + M / 10000 + 1 / 2 ^ 40"
    using err unfolding E by (simp_all only: abs_le_iff) linarith+
  show "luminance red green blue = N div 10000
          \<or> (N mod 10000 = 0 \<and> luminance red green blue = N div 10000 - 1)"
  proof (cases "m = 0")
    case True
    then have M0: "M = 0" by (simp add: M_def)
    show ?thesis
    proof (cases "D \<le> s")
      case True
      have "\<lfloor>s\<rfloor> = d"
        using True hi eps M0 by (intro floor_unique) (simp_all add: D_def)
      then show ?thesis using lum by (simp add: d_def)
    next
      case False
      have "\<lfloor>s\<rfloor> = d - 1"
        using False lo eps M0 by (intro floor_unique) (simp_all add: D_def)
      then show ?thesis using lum \<open>m = 0\<close> by (simp add: d_def m_def)
    qed
  next
    case False
    then have "1 \<le> m" using m by simp
    then have M1: "1 \<le> M" by (simp add: M_def)
    have "\<lfloor>s\<rfloor> = d"
      using lo hi eps M1 M by (intro floor_unique) (simp_all add: D_def)
    then show ?thesis using lum by (simp add: d_def)
  qed
  show "0 \<le> luminance red green blue" using lum s0 by simp
  have "N \<le> 2549745" using r g b by (simp add: N_def)
  then have "(of_int N :: rat) \<le> 2549745" by (simp only: of_int_le_iff[symmetric, where ?'a = rat] of_int_numeral)
  then have "s < 255" using err eps by (simp only: abs_le_iff) linarith
  then have "\<lfloor>s\<rfloor> < 255" by (simp add: floor_less_iff)
  then show "luminance red green blue \<le> 254" using lum by simp
qed

lemma inplace_inv_in_range:
  assumes inv: "inplace_inv img g (width img) 0 img'"
    and g: "\<And>x y. x < width img \<Longrightarrow> y < height img \<Longrightarrow> channels_in_range (g (pix img ! x ! y))"
  shows "image_in_range img'"
  using inv g by (auto simp add: image_in_range_def list_all_length inplace_inv_def)

lemma gray_pixel_in_range:
  assumes "is_rgb p" "channels_in_range p"
  shows "channels_in_range (gray_pixel p)"
proof (cases p)
  case (L v)
  then show ?thesis using assms by (simp add: is_rgb_def)
next
  case (RGB r g b)
  then have "0 \<le> luminance r g b" "luminance r g b \<le> 254"
    using assms(2) luminance_floor(2,3)[of r g b] by (simp_all add: channels_in_range_def)
  then show ?thesis using RGB by (simp add: gray_pixel_def channels_in_range_def)
qed

lemma threshold_pixel_in_range:
  "is_rgb p \<Longrightarrow> channels_in_range (threshold_pixel threshold p)"
  by (cases p) (simp_all add: threshold_pixel_def channels_in_range_def is_rgb_def)

section \<open>The loop that fills a new image\<close>

lemma fill_loop:
  fixes step :: "nat \<Rightarrow> nat \<Rightarrow> image \<Rightarrow> error + image"
  assumes shape: "width s0 = w" "height s0 = h" "length (pix s0) = w"
      "\<forall>x<w. length (pix s0 ! x) = h"
    and step: "\<And>row col s. row < w \<Longrightarrow> col < h \<Longrightarrow> width s = w \<Longrightarrow> height s = h \<Longrightarrow>
        step row col s = Inr (s\<lparr>pix := (pix s)[row := (pix s ! row)[col := f row col]]\<rparr>)"
  shows "\<exists>s'. for_range w (\<lambda>row. for_range h (\<lambda>col. step row col)) s0 = Inr s'
           \<and> fill_inv w h f w 0 s'"
proof (rule for_range_rule[where I = "\<lambda>row. fill_inv w h f row 0"])
  show "fill_inv w h f 0 0 s0"
    using shape by (simp add: fill_inv_def)
next
  fix row t
  assume row: "row < w" and inv: "fill_inv w h f row 0 t"
  have "\<exists>t'. for_range h (\<lambda>col. step row col) t = Inr t' \<and> fill_inv w h f row h t'"
  proof (rule for_range_rule[where I = "\<lambda>col. fill_inv w h f row col"])
    show "fill_inv w h f row 0 t" by (rule inv)
  next
    fix col u
    assume col: "col < h" and u: "fill_inv w h f row col u"
    have "step row col u = Inr (u\<lparr>pix := (pix u)[row := (pix u ! row)[col := f row col]]\<rparr>)"
      using u row col by (intro step) (simp_all add: fill_inv_def)
    moreover have "fill_inv w h f row (Suc col)
        (u\<lparr>pix := (pix u)[row := (pix u ! row)[col := f row col]]\<rparr>)"
      using u row col
      by (auto simp add: fill_inv_def nth_list_update less_Suc_eq)
    ultimately show "\<exists>t'. step row col u = Inr t' \<and> fill_inv w h f row (Suc col) t'"
      by simp
  qed
  then obtain t' where t': "for_range h (\<lambda>col. step row col) t = Inr t'"
    "fill_inv w h f row h t'" by auto
  have "fill_inv w h f (Suc row) 0 t'"
    using t'(2) by (auto simp add: fill_inv_def less_Suc_eq)
  then show "\<exists>t'. for_range h (\<lambda>col. step row col) t = Inr t' \<and> fill_inv w h f (Suc row) 0 t'"
    using t'(1) by simp
qed

lemma new_size_nonneg:
  assumes "0 < scale_factor"
  shows "0 \<le> py_int (fmul (float_of_int (int n)) scale_factor)"
proof -
  have "0 \<le> float_of_int (int n)" by (simp add: float_of_int_def fl_nonneg)
  then have "0 \<le> fmul (float_of_int (int n)) scale_factor"
    using assms by (simp add: fmul_def fl_nonneg)
  then show ?thesis by (simp add: py_int_def)
qed

lemma black_image_shape:
  "width (black_image w h) = w" "height (black_image w h) = h"
  "length (pix (black_image w h)) = w" "\<forall>x<w. length (pix (black_image w h) ! x) = h"
  by (simp_all add: black_image_def)

lemma bicubic_resized_fill:
  assumes "0 < scale_factor"
    and "image_new lib (py_int (fmul (float_of_int (int (width original))) scale_factor))
           (py_int (fmul (float_of_int (int (height original))) scale_factor))
         = Inr (black_image (nat (py_int (fmul (float_of_int (int (width original))) scale_factor)))
                  (nat (py_int (fmul (float_of_int (int (height original))) scale_factor))))"
  shows "\<exists>resized. bicubic_resized lib original scale_factor = Inr resized
     \<and> fill_inv (nat (py_int (fmul (float_of_int (int (width original))) scale_factor)))
                (nat (py_int (fmul (float_of_int (int (height original))) scale_factor)))
                (bicubic_pixel lib original scale_factor)
                (nat (py_int (fmul (float_of_int (int (width original))) scale_factor))) 0 resized"
proof -
  define nw where "nw = py_int (fmul (float_of_int (int (width original))) scale_factor)"
  define nh where "nh = py_int (fmul (float_of_int (int (height original))) scale_factor)"
  define s0 where "s0 = black_image (nat nw) (nat nh)"
  have new: "image_new lib nw nh = Inr s0"
    using assms(2) by (simp add: nw_def nh_def s0_def)
  have s0: "width s0 = nat nw" "height s0 = nat nh" "length (pix s0) = nat nw"
    "\<forall>x<nat nw. length (pix s0 ! x) = nat nh"
    by (simp_all add: s0_def black_image_shape)
  have step: "bicubic_step lib original scale_factor row col s
      = Inr (s\<lparr>pix := (pix s)[row := (pix s ! row)[col := bicubic_pixel lib original scale_factor row col]]\<rparr>)"
    if "row < nat nw" "col < nat nh" "width s = nat nw" "height s = nat nh" for row col s
  proof -
    have nz: "scale_factor \<noteq> 0" using assms(1) by simp
    have "row < width s" "col < height s" using that by simp_all
    then have "putpx s (int row) (int col) (bicubic_pixel lib original scale_factor row col)
      = Inr (s\<lparr>pix := (pix s)[row := (pix s ! row)[col := bicubic_pixel lib original scale_factor row col]]\<rparr>)"
      by (rule putpx_inside)
    then show ?thesis using nz by (simp only: bicubic_step_def if_False)
  qed
  have "\<exists>s'. for_range (nat nw)
       (\<lambda>row. for_range (nat nh) (\<lambda>col. bicubic_step lib original scale_factor row col)) s0 = Inr s'
       \<and> fill_inv (nat nw) (nat nh) (bicubic_pixel lib original scale_factor) (nat nw) 0 s'"
    using s0 step by (rule fill_loop)
  then obtain s' where "for_range (nat nw)
       (\<lambda>row. for_range (nat nh) (\<lambda>col. bicubic_step lib original scale_factor row col)) s0 = Inr s'"
    "fill_inv (nat nw) (nat nh) (bicubic_pixel lib original scale_factor) (nat nw) 0 s'"
    by blast
  then show ?thesis
    using new unfolding nw_def[symmetric] nh_def[symmetric]
    by (intro exI[of _ s']) (simp add: bicubic_resized_def Let_def nw_def[symmetric] nh_def[symmetric] bnd_Inr)
qed

lemma bicubic_filter_scratch:
  assumes "r < length h" "0 < scale_factor"
    and "image_new lib (py_int (fmul (float_of_int (int (width (h ! r)))) scale_factor))
           (py_int (fmul (float_of_int (int (height (h ! r)))) scale_factor))
         = Inr (black_image (nat (py_int (fmul (float_of_int (int (width (h ! r)))) scale_factor)))
                  (nat (py_int (fmul (float_of_int (int (height (h ! r)))) scale_factor))))"
  shows "\<exists>resized. bicubic_filter lib h (ImageV r) scale_factor False
            = Inr (ImageV (length h), h @ [resized])
     \<and> fill_inv (nat (py_int (fmul (float_of_int (int (width (h ! r)))) scale_factor)))
                (nat (py_int (fmul (float_of_int (int (height (h ! r)))) scale_factor)))
                (bicubic_pixel lib (h ! r) scale_factor)
                (nat (py_int (fmul (float_of_int (int (width (h ! r)))) scale_factor))) 0 resized"
proof -
  from bicubic_resized_fill[OF assms(2,3)] obtain resized where
    "bicubic_resized lib (h ! r) scale_factor = Inr resized"
    "fill_inv (nat (py_int (fmul (float_of_int (int (width (h ! r)))) scale_factor)))
                (nat (py_int (fmul (float_of_int (int (height (h ! r)))) scale_factor)))
                (bicubic_pixel lib (h ! r) scale_factor)
                (nat (py_int (fmul (float_of_int (int (width (h ! r)))) scale_factor))) 0 resized"
    by auto
  then show ?thesis using assms(1)
    by (intro exI[of _ resized]) (simp add: bicubic_filter_def deref_def bnd_Inr)
qed

lemma py_int_clip: "0 \<le> py_int (clip v) \<and> py_int (clip v) \<le> 255"
proof -
  have "0 \<le> clip v" "clip v \<le> 255" by (simp_all add: clip_def)
  then show ?thesis by (simp add: py_int_def floor_le_iff) 
qed

lemma bicubic_pixel_in_range: "channels_in_range (bicubic_pixel lib original scale_factor row col)"
  using py_int_clip
  by (simp add: bicubic_pixel_def Let_def channels_in_range_def split: prod.splits)

lemma fill_inv_in_range:
  assumes "fill_inv w h f w 0 s" and "\<And>x y. channels_in_range (f x y)"
  shows "image_in_range s"
  using assms by (auto simp add: fill_inv_def image_in_range_def list_all_length)

section \<open>The bilinear resampler reads inside the source image\<close>





















section \<open>The language-model response handler\<close>

lemma response_result_text:
  "resp_text response = Inr t \<Longrightarrow> response_result response = StrV t"
  by (simp add: response_result_def)

lemma response_result_part:
  "resp_text response = Inl e \<Longrightarrow> resp_parts response = Inr (p # ps) \<Longrightarrow>
   response_result response = NoneV"
  by (simp add: response_result_def)

lemma response_result_fallback:
  "resp_text response = Inl e \<Longrightarrow> resp_parts response = Inl e' \<or> resp_parts response = Inr [] \<Longrightarrow>
   response_result response = StrV ''Sorry I couldn Understand the Prescription''"
  by (auto simp add: response_result_def)

lemma get_text_from_image_fast:
  assumes "image_open env imagev = Inr img"
    and "image_save env img ''Image.jpg'' = Inr u"
    and "readtext env img = Inr detections"
    and "generate_content env (prompt_fast (join_space (map (\<lambda>v. fst (snd v)) detections)))
           = Inr response"
  shows "get_text_from_image lib env h imagev True = Inr (response_result response)"
  using assms by (simp add: get_text_from_image_def bnd_Inr)

text \<open>
  C10. In \<^verbatim>\<open>get_text_from_image\<close>, when the language model answers with a response whose
  \<^verbatim>\<open>text\<close> attribute raises and whose \<^verbatim>\<open>parts[0]\<close> exists, the function returns
  \<^verbatim>\<open>None\<close>: neither the content of the response nor the fallback message.
\<close>

theorem get_text_from_image_returns_None:
  assumes "image_open env imagev = Inr img"
    and "image_save env img ''Image.jpg'' = Inr u"
    and "readtext env img = Inr detections"
    and "generate_content env (prompt_fast (join_space (map (\<lambda>v. fst (snd v)) detections)))
           = Inr response"
    and "resp_text response = Inl e"
    and "resp_parts response = Inr (p # ps)"
  shows "get_text_from_image lib env h imagev True = Inr NoneV"
  using get_text_from_image_fast[OF assms(1-4)] response_result_part[OF assms(5,6)] by simp

theorem get_text_from_image_returns_None_witness:
  "get_text_from_image small_pil
     (one_shot \<lparr>resp_text = Inl ValueError, resp_parts = Inr [''blocked'']\<rparr>)
     [] (FileV ''scan.png'') True = Inr NoneV"
proof -
  let ?r = "\<lparr>resp_text = Inl ValueError, resp_parts = Inr [''blocked'']\<rparr>"
  have 1: "image_open (one_shot ?r) (FileV ''scan.png'')
             = Inr \<lparr>width = 1, height = 1, pix = [[RGB 0 0 0]]\<rparr>"
    by (simp add: one_shot_def)
  have 2: "image_save (one_shot ?r) \<lparr>width = 1, height = 1, pix = [[RGB 0 0 0]]\<rparr> ''Image.jpg''
             = Inr ()"
    by (simp add: one_shot_def)
  have 3: "readtext (one_shot ?r) \<lparr>width = 1, height = 1, pix = [[RGB 0 0 0]]\<rparr>
             = Inr [([(0, 0), (9, 0), (9, 9), (0, 9)], ''Paracetamol'', 9 / 10),
                    ([(0, 10), (9, 10), (9, 19), (0, 19)], ''500mg'', 8 / 10)]"
    by (simp add: one_shot_def)
  have 4: "generate_content (one_shot ?r)
             (prompt_fast (join_space (map (\<lambda>v. fst (snd v))
                [([(0, 0), (9, 0), (9, 9), (0, 9)], ''Paracetamol'', 9 / 10),
                 ([(0, 10), (9, 10), (9, 19), (0, 19)], ''500mg'', 8 / 10)]))) = Inr ?r"
    by (simp add: one_shot_def)
  have 5: "resp_text ?r = Inl ValueError" by simp
  have 6: "resp_parts ?r = Inr [''blocked'']" by simp
  show ?thesis by (rule get_text_from_image_returns_None[OF 1 2 3 4 5 6])
qed

text \<open>
  C4, as stated, fails: with a response whose \<^verbatim>\<open>text\<close> raises and whose \<^verbatim>\<open>parts\<close> is
  empty, the string returned is not \<^verbatim>\<open>"Sorry, I couldn't understand the Prescription"\<close>.
\<close>

theorem get_text_from_image_fallback_counterexample:
  "get_text_from_image small_pil
     (one_shot \<lparr>resp_text = Inl ValueError, resp_parts = Inr []\<rparr>)
     [] (FileV ''scan.png'') True
   \<noteq> Inr (StrV ''Sorry, I couldn't understand the Prescription'')"
  by (simp add: get_text_from_image_def one_shot_def response_result_def bnd_Inr)

text \<open>
  C4, amended. In fast mode, when the language model answers with a response whose
  \<^verbatim>\<open>text\<close> attribute raises and whose \<^verbatim>\<open>parts[0]\<close> raises as well, the function returns
  the fixed string \<^verbatim>\<open>'Sorry I couldn Understand the Prescription'\<close> instead of raising.
\<close>

theorem get_text_from_image_fallback:
  assumes "image_open env imagev = Inr img"
    and "image_save env img ''Image.jpg'' = Inr u"
    and "readtext env img = Inr detections"
    and "generate_content env (prompt_fast (join_space (map (\<lambda>v. fst (snd v)) detections)))
           = Inr response"
    and "resp_text response = Inl e"
    and "resp_parts response = Inl e' \<or> resp_parts response = Inr []"
  shows "get_text_from_image lib env h imagev True
           = Inr (StrV ''Sorry I couldn Understand the Prescription'')"
  using get_text_from_image_fast[OF assms(1-4)] response_result_fallback[OF assms(5,6)] by simp

theorem get_text_from_image_fallback_witness:
  "get_text_from_image small_pil
     (one_shot \<lparr>resp_text = Inl ValueError, resp_parts = Inr []\<rparr>)
     [] (FileV ''scan.png'') True
   = Inr (StrV ''Sorry I couldn Understand the Prescription'')"
proof -
  let ?r = "\<lparr>resp_text = Inl ValueError, resp_parts = Inr []\<rparr>"
  have 1: "image_open (one_shot ?r) (FileV ''scan.png'')
             = Inr \<lparr>width = 1, height = 1, pix = [[RGB 0 0 0]]\<rparr>"
    by (simp add: one_shot_def)
  have 2: "image_save (one_shot ?r) \<lparr>width = 1, height = 1, pix = [[RGB 0 0 0]]\<rparr> ''Image.jpg''
             = Inr ()"
    by (simp add: one_shot_def)
  have 3: "readtext (one_shot ?r) \<lparr>width = 1, height = 1, pix = [[RGB 0 0 0]]\<rparr>
             = Inr [([(0, 0), (9, 0), (9, 9), (0, 9)], ''Paracetamol'', 9 / 10),
                    ([(0, 10), (9, 10), (9, 19), (0, 19)], ''500mg'', 8 / 10)]"
    by (simp add: one_shot_def)
  have 4: "generate_content (one_shot ?r)
             (prompt_fast (join_space (map (\<lambda>v. fst (snd v))
                [([(0, 0), (9, 0), (9, 9), (0, 9)], ''Paracetamol'', 9 / 10),
                 ([(0, 10), (9, 10), (9, 19), (0, 19)], ''500mg'', 8 / 10)]))) = Inr ?r"
    by (simp add: one_shot_def)
  have 5: "resp_text ?r = Inl ValueError" by simp
  have 6: "resp_parts ?r = Inl ValueError \<or> resp_parts ?r = Inr []" by simp
  show ?thesis by (rule get_text_from_image_fallback[OF 1 2 3 4 5 6])
qed

section \<open>What the resamplers return\<close>

lemma bicubic_filter_fast_raises:
  "\<exists>e. bicubic_filter lib h imagev scale_factor True = Inl e"
  by (simp add: bicubic_filter_def bnd_def split: sum.splits)

lemma bilinear_filter_fast_None:
  "bilinear_filter lib h imagev scale_factor True = Inr (v, h') \<Longrightarrow> v = NoneV"
  by (auto simp add: bilinear_filter_def bnd_def split: sum.splits)

text \<open>
  The from-scratch branch of \<^verbatim>\<open>get_text_from_image\<close> calls \<^verbatim>\<open>bicubic_filter\<close> in fast
  mode, so it raises before it reaches the OCR engine and the language model.
\<close>

lemma get_text_from_image_scratch_raises:
  "\<exists>e. get_text_from_image lib env h imagev False = Inl e"
proof -
  have "\<exists>e. bnd (bicubic_filter lib h3 image3 2 True) f = Inl e" for h3 image3
    and f :: "val \<times> heap \<Rightarrow> error + val"
    using bicubic_filter_fast_raises[of lib h3 image3 2] by (auto simp add: bnd_Inl)
  then show ?thesis
    by (auto simp add: get_text_from_image_def bnd_def split: sum.splits prod.splits)
qed

text \<open>
  C2 (the code raises on valid input). \<^verbatim>\<open>bicubic_filter\<close> in fast mode never returns: after
  \<^verbatim>\<open>thumbnail\<close> it evaluates \<^verbatim>\<open>return resized_img\<close>, a name that only the from-scratch
  branch binds, so every call raises, whatever the image and the scale factor.
\<close>

theorem bicubic_filter_fast_never_returns:
  "\<exists>e. bicubic_filter lib h imagev scale_factor True = Inl e"
  by (rule bicubic_filter_fast_raises)

text \<open>
  C5 (the two modes are not interchangeable). On a one-pixel image, \<^verbatim>\<open>bilinear_filter\<close>
  returns \<^verbatim>\<open>None\<close> in fast mode and the input image in from-scratch mode, and
  \<^verbatim>\<open>bicubic_filter\<close> raises in fast mode and returns a new image in from-scratch mode.
\<close>

theorem resampler_modes_differ:
  "bilinear_filter small_pil [white_pixel_image] (ImageV 0) 2 True
     = Inr (NoneV, [white_pixel_image])
   \<and> bilinear_filter small_pil [white_pixel_image] (ImageV 0) 2 False
     = Inr (ImageV 0, [white_pixel_image,
          \<lparr>width = 2, height = 2,
           pix = [[RGB 255 255 255, RGB 255 255 255], [RGB 255 255 255, RGB 255 255 255]]\<rparr>])
   \<and> bicubic_filter small_pil [white_pixel_image] (ImageV 0) 1 True = Inl UnboundLocalError
   \<and> bicubic_filter small_pil [white_pixel_image] (ImageV 0) 1 False
     = Inr (ImageV 1, [white_pixel_image, white_pixel_image])"
  by (simp add: white_pixel_image_def img_eval fl_eval
        del: fold.simps cong: eval_cong)

text \<open>
  C1 (the from-scratch \<^verbatim>\<open>bilinear_filter\<close> does not return the resized image). Whenever the
  from-scratch branch returns, it returns its argument: the image it has built in
  \<^verbatim>\<open>resized_img\<close> is a new object that nothing refers to, and the image returned is the
  input as it was.
\<close>

theorem bilinear_filter_scratch_returns_argument:
  assumes "bilinear_filter lib h imagev scale_factor False = Inr (v, h')"
  shows "v = imagev \<and> (\<exists>resized_img. h' = h @ [resized_img]) \<and> deref h' v = deref h imagev"
proof -
  from assms obtain original resized_img where
    d: "deref h imagev = Inr original" and v: "v = imagev" and h': "h' = h @ [resized_img]"
    by (auto simp add: bilinear_filter_def bnd_def split: sum.splits)
  from d obtain r where r: "imagev = ImageV r" "r < length h"
    by (auto simp add: deref_def split: val.splits if_splits)
  then have "deref h' v = deref h imagev"
    using v h' by (simp add: deref_def nth_append)
  then show ?thesis using v h' by simp
qed

theorem bilinear_filter_scratch_returns_argument_witness:
  "bilinear_filter small_pil [\<lparr>width = 1, height = 1, pix = [[RGB 10 20 30]]\<rparr>] (ImageV 0) 2 False
     = Inr (ImageV 0, [\<lparr>width = 1, height = 1, pix = [[RGB 10 20 30]]\<rparr>,
          \<lparr>width = 2, height = 2,
           pix = [[RGB 10 20 30, RGB 10 20 30], [RGB 10 20 30, RGB 10 20 30]]\<rparr>])
   \<and> deref [\<lparr>width = 1, height = 1, pix = [[RGB 10 20 30]]\<rparr>,
          \<lparr>width = 2, height = 2,
           pix = [[RGB 10 20 30, RGB 10 20 30], [RGB 10 20 30, RGB 10 20 30]]\<rparr>] (ImageV 0)
     = deref [\<lparr>width = 1, height = 1, pix = [[RGB 10 20 30]]\<rparr>] (ImageV 0)"
proof -
  have e: "bilinear_filter small_pil [\<lparr>width = 1, height = 1, pix = [[RGB 10 20 30]]\<rparr>]
             (ImageV 0) 2 False
     = Inr (ImageV 0, [\<lparr>width = 1, height = 1, pix = [[RGB 10 20 30]]\<rparr>,
          \<lparr>width = 2, height = 2,
           pix = [[RGB 10 20 30, RGB 10 20 30], [RGB 10 20 30, RGB 10 20 30]]\<rparr>])"
    by (simp add: img_eval fl_eval cong: eval_cong)
  from bilinear_filter_scratch_returns_argument[OF e] e show ?thesis by simp
qed

section \<open>The thresholder\<close>







section \<open>The grayscale converter\<close>

text \<open>
  C3, as stated, fails: the pixel (0, 255, 0) is mapped to 149, not to 150, since
  \<^verbatim>\<open>int(0.5870 * 255)\<close> truncates 149.685.
\<close>

theorem to_grayscale_green_counterexample:
  "to_grayscale small_pil [green_pixel_image] (ImageV 0) False
     = Inr (ImageV 0, [\<lparr>width = 1, height = 1, pix = [[RGB 149 149 149]]\<rparr>])
   \<and> luminance 0 255 0 \<noteq> 150"
  by (simp add: green_pixel_image_def img_eval fl_eval cong: eval_cong)

text \<open>
  C3, amended. On a three-band image with channels in [0, 255] the from-scratch conversion
  succeeds and writes \<open>(Y, Y, Y)\<close> for every pixel \<open>(R, G, B)\<close>, where \<open>Y\<close> is the truncated
  double-precision sum \<^verbatim>\<open>0.2989*R + 0.5870*G + 0.1140*B\<close>. \<open>Y\<close> is the floor of the exact
  quotient \<open>(2989 R + 5870 G + 1140 B) / 10000\<close>, or one less than it where the quotient is
  an integer (the float sum can fall just below it, as for (0, 72, 24), which gives 44).
  (255, 0, 0) gives 76, (0, 255, 0) gives 149 and (0, 0, 255) gives 29.
\<close>

theorem to_grayscale_luminance:
  assumes "r < length h" and "rgb_image (h ! r)" and "image_in_range (h ! r)"
  shows "(\<exists>img'. to_grayscale lib h (ImageV r) False = Inr (ImageV r, h[r := img'])
            \<and> width img' = width (h ! r) \<and> height img' = height (h ! r)
            \<and> (\<forall>x<width (h ! r). \<forall>y<height (h ! r). \<forall>R G B.
                  pix (h ! r) ! x ! y = RGB R G B \<longrightarrow>
                  (\<exists>Y. pix img' ! x ! y = RGB Y Y Y \<and> Y = luminance R G B \<and>
                     (Y = (2989 * R + 5870 * G + 1140 * B) div 10000
                      \<or> ((2989 * R + 5870 * G + 1140 * B) mod 10000 = 0
                          \<and> Y = (2989 * R + 5870 * G + 1140 * B) div 10000 - 1)))))
         \<and> luminance 255 0 0 = 76 \<and> luminance 0 255 0 = 149 \<and> luminance 0 0 255 = 29
         \<and> luminance 0 72 24 = 44"
proof -
  from to_grayscale_scratch[OF assms(1,2), of lib] obtain img' where
    e: "to_grayscale lib h (ImageV r) False = Inr (ImageV r, h[r := img'])"
    and inv: "inplace_inv (h ! r) gray_pixel (width (h ! r)) 0 img'"
    by auto
  have shape: "length (pix (h ! r)) = width (h ! r)"
    "\<forall>x<width (h ! r). length (pix (h ! r) ! x) = height (h ! r)"
    using assms(2) by (simp_all add: rgb_image_iff)
  have px: "\<exists>Y. pix img' ! x ! y = RGB Y Y Y \<and> Y = luminance R G B \<and>
                     (Y = (2989 * R + 5870 * G + 1140 * B) div 10000
                      \<or> ((2989 * R + 5870 * G + 1140 * B) mod 10000 = 0
                          \<and> Y = (2989 * R + 5870 * G + 1140 * B) div 10000 - 1))"
    if x: "x < width (h ! r)" and y: "y < height (h ! r)" and p: "pix (h ! r) ! x ! y = RGB R G B"
    for x y R G B
  proof -
    have "channels_in_range (RGB R G B)"
      using image_in_range_nth[OF assms(3), of x y] shape x y p by simp
    then have rng: "0 \<le> R" "R \<le> 255" "0 \<le> G" "G \<le> 255" "0 \<le> B" "B \<le> 255"
      by (simp_all add: channels_in_range_def)
    have "pix img' ! x ! y = gray_pixel (RGB R G B)"
      using inv x y p by (simp add: inplace_inv_def)
    then show ?thesis
      using luminance_floor(1)[OF rng] by (simp add: gray_pixel_def)
  qed
  have fixtures: "luminance 255 0 0 = 76 \<and> luminance 0 255 0 = 149 \<and> luminance 0 0 255 = 29
         \<and> luminance 0 72 24 = 44"
    by (simp add: luminance_def fl_eval cong: eval_cong)
  have "width img' = width (h ! r)" "height img' = height (h ! r)"
    using inv by (simp_all add: inplace_inv_def)
  then show ?thesis using e px fixtures
    by (intro conjI exI[of _ img']) (simp_all)
qed

theorem to_grayscale_luminance_witness:
  "0 < length [green_pixel_image] \<and> rgb_image ([green_pixel_image] ! 0)
   \<and> image_in_range ([green_pixel_image] ! 0)
   \<and> (\<exists>img'. to_grayscale small_pil [green_pixel_image] (ImageV 0) False
                 = Inr (ImageV 0, [green_pixel_image][0 := img'])
              \<and> pix img' ! 0 ! 0 = RGB 149 149 149)"
proof -
  have 1: "0 < length [green_pixel_image]" by simp
  have 2: "rgb_image ([green_pixel_image] ! 0)"
    by (simp add: rgb_image_def green_pixel_image_def is_rgb_def)
  have 3: "image_in_range ([green_pixel_image] ! 0)"
    by (simp add: image_in_range_def green_pixel_image_def channels_in_range_def)
  from to_grayscale_luminance[OF 1 2 3, of small_pil] obtain img' where
    e: "to_grayscale small_pil [green_pixel_image] (ImageV 0) False
          = Inr (ImageV 0, [green_pixel_image][0 := img'])"
    and px: "\<forall>x<width ([green_pixel_image] ! 0). \<forall>y<height ([green_pixel_image] ! 0). \<forall>R G B.
                  pix ([green_pixel_image] ! 0) ! x ! y = RGB R G B \<longrightarrow>
                  (\<exists>Y. pix img' ! x ! y = RGB Y Y Y \<and> Y = luminance R G B \<and>
                     (Y = (2989 * R + 5870 * G + 1140 * B) div 10000
                      \<or> ((2989 * R + 5870 * G + 1140 * B) mod 10000 = 0
                          \<and> Y = (2989 * R + 5870 * G + 1140 * B) div 10000 - 1)))"
    and lum: "luminance 0 255 0 = 149"
    by blast
  have "pix ([green_pixel_image] ! 0) ! 0 ! 0 = RGB 0 255 0"
    by (simp add: green_pixel_image_def)
  with px have "\<exists>Y. pix img' ! 0 ! 0 = RGB Y Y Y \<and> Y = luminance 0 255 0"
    by (simp add: green_pixel_image_def)
  then have "pix img' ! 0 ! 0 = RGB 149 149 149" using lum by auto
  then show ?thesis using 1 2 3 e by blast
qed

section \<open>The bicubic resampler\<close>

lemma fold_product:
  "fold (\<lambda>x acc. fold (\<lambda>y acc. f x y acc) ys acc) xs a
     = fold (\<lambda>p acc. f (fst p) (snd p) acc) (List.product xs ys) a"
  by (induction xs arbitrary: a) (simp_all add: fold_map comp_def)

lemma fold_accumulate:
  "fold (\<lambda>p acc. accumulate acc (c p) (wx p) (wy p)) ps (a0, a1, a2) =
    (fold (\<lambda>p a. fadd a (fmul (fmul (fst (c p)) (wx p)) (wy p))) ps a0,
     fold (\<lambda>p a. fadd a (fmul (fmul (fst (snd (c p))) (wx p)) (wy p))) ps a1,
     fold (\<lambda>p a. fadd a (fmul (fmul (snd (snd (c p))) (wx p)) (wy p))) ps a2)"
  by (induction ps arbitrary: a0 a1 a2) (simp_all add: accumulate_def split: prod.splits)

lemma fadd_zero_sample:
  assumes "fl a = a"
  shows "fadd a (fmul (fmul 0 wx) wy) = a"
  using assms by (simp add: fadd_def fmul_def fl_zero)

lemma fold_skip_zero:
  assumes "fl a = a" and "\<And>p. p \<in> set ps \<Longrightarrow> \<not> inside p \<Longrightarrow> c p = 0"
  shows "fold (\<lambda>p a. fadd a (fmul (fmul (c p) (wx p)) (wy p))) ps a
       = fold (\<lambda>p a. fadd a (fmul (fmul (c p) (wx p)) (wy p))) (filter inside ps) a"
  using assms
proof (induction ps arbitrary: a)
  case Nil
  then show ?case by simp
next
  case (Cons p ps)
  show ?case
  proof (cases "inside p")
    case True
    have "fl (fadd a (fmul (fmul (c p) (wx p)) (wy p))) = fadd a (fmul (fmul (c p) (wx p)) (wy p))"
      by (simp add: fadd_def fl_idem)
    then show ?thesis using True Cons.IH[of "fadd a (fmul (fmul (c p) (wx p)) (wy p))"] Cons.prems(2)
      by simp
  next
    case False
    then have "c p = 0" using Cons.prems(2) by simp
    then have "fadd a (fmul (fmul (c p) (wx p)) (wy p)) = a"
      using Cons.prems(1) by (simp add: fadd_zero_sample)
    then show ?thesis using False Cons.IH[of a] Cons.prems by simp
  qed
qed

lemma fold_sample_cong:
  assumes "\<And>p. p \<in> set ps \<Longrightarrow> c p = d p"
  shows "fold (\<lambda>p a. fadd a (fmul (fmul (c p) (wx p)) (wy p))) ps a
       = fold (\<lambda>p a. fadd a (fmul (fmul (d p) (wx p)) (wy p))) ps a"
  using assms by (induction ps arbitrary: a) simp_all

lemma channel_sum:
  assumes out: "\<And>p. p \<in> set ps \<Longrightarrow> \<not> inside p \<Longrightarrow> c p = 0"
    and ins: "\<And>p. p \<in> set ps \<Longrightarrow> inside p \<Longrightarrow> c p = d p"
  shows "fold (\<lambda>p a. fadd a (fmul (fmul (c p) (wx p)) (wy p))) ps 0
       = fold (\<lambda>p a. fadd a (fmul (fmul (d p) (wx p)) (wy p))) (filter inside ps) 0"
proof -
  have "fold (\<lambda>p a. fadd a (fmul (fmul (c p) (wx p)) (wy p))) ps 0
       = fold (\<lambda>p a. fadd a (fmul (fmul (c p) (wx p)) (wy p))) (filter inside ps) 0"
    using fl_zero out by (rule fold_skip_zero)
  also have "\<dots> = fold (\<lambda>p a. fadd a (fmul (fmul (d p) (wx p)) (wy p))) (filter inside ps) 0"
    using ins by (intro fold_sample_cong) simp
  finally show ?thesis .
qed

lemma contribution_channels:
  "fst (contribution original x y) =
     (if 0 \<le> x \<and> x < int (width original) \<and> 0 \<le> y \<and> y < int (height original)
      then float_of_int (case pix original ! nat x ! nat y of RGB red green blue \<Rightarrow> red | L v \<Rightarrow> v) else 0)"
  "fst (snd (contribution original x y)) =
     (if 0 \<le> x \<and> x < int (width original) \<and> 0 \<le> y \<and> y < int (height original)
      then float_of_int (case pix original ! nat x ! nat y of RGB red green blue \<Rightarrow> green | L v \<Rightarrow> v) else 0)"
  "snd (snd (contribution original x y)) =
     (if 0 \<le> x \<and> x < int (width original) \<and> 0 \<le> y \<and> y < int (height original)
      then float_of_int (case pix original ! nat x ! nat y of RGB red green blue \<Rightarrow> blue | L v \<Rightarrow> v) else 0)"
  by (simp_all add: contribution_def split: pixel.splits)

lemma bicubic_pixel_sum:
  "bicubic_pixel lib original scale_factor row col =
     (let scaled_row = fdiv (float_of_int (int row)) scale_factor;
          scaled_col = fdiv (float_of_int (int col)) scale_factor;
          scaled_row_iter = py_int scaled_row - 1;
          scaled_col_iter = py_int scaled_col - 1;
          weighted_sum = (\<lambda>channel.
            fold (\<lambda>(x_index, y_index) acc.
                    fadd acc (fmul (fmul
                      (float_of_int (channel (pix original ! nat (scaled_row_iter + int x_index)
                                                          ! nat (scaled_col_iter + int y_index))))
                      (cubic lib (fsub (fsub scaled_row (float_of_int scaled_row_iter))
                                       (float_of_int (int x_index)))))
                      (cubic lib (fsub (fsub scaled_col (float_of_int scaled_col_iter))
                                       (float_of_int (int y_index))))))
              (filter (\<lambda>(x_index, y_index).
                         0 \<le> scaled_row_iter + int x_index
                         \<and> scaled_row_iter + int x_index < int (width original)
                         \<and> 0 \<le> scaled_col_iter + int y_index
                         \<and> scaled_col_iter + int y_index < int (height original))
                 (List.product [0..<4] [0..<4]))
              0)
      in RGB (py_int (min (max (weighted_sum (\<lambda>p. case p of RGB red green blue \<Rightarrow> red | L v \<Rightarrow> v)) 0) 255))
             (py_int (min (max (weighted_sum (\<lambda>p. case p of RGB red green blue \<Rightarrow> green | L v \<Rightarrow> v)) 0) 255))
             (py_int (min (max (weighted_sum (\<lambda>p. case p of RGB red green blue \<Rightarrow> blue | L v \<Rightarrow> v)) 0) 255)))"
proof -
  define sr where "sr = fdiv (float_of_int (int row)) scale_factor"
  define sc where "sc = fdiv (float_of_int (int col)) scale_factor"
  define xi where "xi = py_int sr - 1"
  define yi where "yi = py_int sc - 1"
  define c where "c = (\<lambda>p :: nat \<times> nat. contribution original (xi + int (fst p)) (yi + int (snd p)))"
  define wx where "wx = (\<lambda>p :: nat \<times> nat. cubic lib (fsub (fsub sr (float_of_int xi)) (float_of_int (int (fst p)))))"
  define wy where "wy = (\<lambda>p :: nat \<times> nat. cubic lib (fsub (fsub sc (float_of_int yi)) (float_of_int (int (snd p)))))"
  define inside where "inside = (\<lambda>p :: nat \<times> nat.
      0 \<le> xi + int (fst p) \<and> xi + int (fst p) < int (width original)
      \<and> 0 \<le> yi + int (snd p) \<and> yi + int (snd p) < int (height original))"
  define d where "d = (\<lambda>(channel :: pixel \<Rightarrow> int) (p :: nat \<times> nat).
      float_of_int (channel (pix original ! nat (xi + int (fst p)) ! nat (yi + int (snd p)))))"
  define ps where "ps = List.product [0..<4] [0..<4]"
  have nested: "fold (\<lambda>x_index acc. fold (\<lambda>y_index acc.
          accumulate acc (contribution original (xi + int x_index) (yi + int y_index))
            (cubic lib (fsub (fsub sr (float_of_int xi)) (float_of_int (int x_index))))
            (cubic lib (fsub (fsub sc (float_of_int yi)) (float_of_int (int y_index)))))
          [0..<4] acc) [0..<4] (0, 0, 0)
      = fold (\<lambda>p acc. accumulate acc (c p) (wx p) (wy p)) ps (0, 0, 0)"
    unfolding c_def wx_def wy_def ps_def
    by (rule fold_product[where f = "\<lambda>x y acc.
          accumulate acc (contribution original (xi + int x) (yi + int y))
            (cubic lib (fsub (fsub sr (float_of_int xi)) (float_of_int (int x))))
            (cubic lib (fsub (fsub sc (float_of_int yi)) (float_of_int (int y))))"])
  have s0: "fold (\<lambda>p a. fadd a (fmul (fmul (fst (c p)) (wx p)) (wy p))) ps 0
      = fold (\<lambda>p a. fadd a (fmul (fmul (d (\<lambda>p. case p of RGB red green blue \<Rightarrow> red | L v \<Rightarrow> v) p) (wx p)) (wy p)))
          (filter inside ps) 0"
    by (rule channel_sum) (auto simp add: c_def d_def inside_def contribution_channels)
  have s1: "fold (\<lambda>p a. fadd a (fmul (fmul (fst (snd (c p))) (wx p)) (wy p))) ps 0
      = fold (\<lambda>p a. fadd a (fmul (fmul (d (\<lambda>p. case p of RGB red green blue \<Rightarrow> green | L v \<Rightarrow> v) p) (wx p)) (wy p)))
          (filter inside ps) 0"
    by (rule channel_sum) (auto simp add: c_def d_def inside_def contribution_channels)
  have s2: "fold (\<lambda>p a. fadd a (fmul (fmul (snd (snd (c p))) (wx p)) (wy p))) ps 0
      = fold (\<lambda>p a. fadd a (fmul (fmul (d (\<lambda>p. case p of RGB red green blue \<Rightarrow> blue | L v \<Rightarrow> v) p) (wx p)) (wy p)))
          (filter inside ps) 0"
    by (rule channel_sum) (auto simp add: c_def d_def inside_def contribution_channels)
  have "bicubic_pixel lib original scale_factor row col =
      (case fold (\<lambda>p acc. accumulate acc (c p) (wx p) (wy p)) ps (0, 0, 0) of
         (v0, v1, v2) \<Rightarrow> RGB (py_int (clip v0)) (py_int (clip v1)) (py_int (clip v2)))"
    unfolding bicubic_pixel_def Let_def sr_def[symmetric] sc_def[symmetric]
      xi_def[symmetric] yi_def[symmetric] nested ..
  also have "\<dots> = RGB
      (py_int (min (max (fold (\<lambda>p a. fadd a (fmul (fmul (d (\<lambda>p. case p of RGB red green blue \<Rightarrow> red | L v \<Rightarrow> v) p) (wx p)) (wy p)))
          (filter inside ps) 0) 0) 255))
      (py_int (min (max (fold (\<lambda>p a. fadd a (fmul (fmul (d (\<lambda>p. case p of RGB red green blue \<Rightarrow> green | L v \<Rightarrow> v) p) (wx p)) (wy p)))
          (filter inside ps) 0) 0) 255))
      (py_int (min (max (fold (\<lambda>p a. fadd a (fmul (fmul (d (\<lambda>p. case p of RGB red green blue \<Rightarrow> blue | L v \<Rightarrow> v) p) (wx p)) (wy p)))
          (filter inside ps) 0) 0) 255))"
    by (simp only: fold_accumulate prod.case s0 s1 s2 clip_def)
  finally show ?thesis
    unfolding Let_def sr_def[symmetric] sc_def[symmetric] xi_def[symmetric] yi_def[symmetric]
      ps_def[symmetric]
    by (simp only: d_def wx_def wy_def inside_def split_def)
qed

text \<open>
  C7. For every image, every scale factor above 0 and every size for which \<^verbatim>\<open>Image.new\<close>
  returns, the from-scratch \<^verbatim>\<open>bicubic_filter\<close> returns a new image of the truncated scaled
  size, and each channel of its pixel at \<open>(row, col)\<close> is the weighted sum, clipped to
  [0, 255] and truncated, over those of the 16 neighbourhood positions that lie inside
  \<open>[0, width) \<times> [0, height)\<close> only, taken in the order of the loops: a position outside
  the source image adds nothing to the sum, and no border pixel takes its place.
\<close>

theorem bicubic_filter_zero_padding:
  assumes "r < length h" and "0 < scale_factor"
    and "image_new lib (py_int (fmul (float_of_int (int (width (h ! r)))) scale_factor))
           (py_int (fmul (float_of_int (int (height (h ! r)))) scale_factor))
         = Inr (black_image (nat (py_int (fmul (float_of_int (int (width (h ! r)))) scale_factor)))
                  (nat (py_int (fmul (float_of_int (int (height (h ! r)))) scale_factor))))"
  shows "\<exists>resized. bicubic_filter lib h (ImageV r) scale_factor False
              = Inr (ImageV (length h), h @ [resized])
      \<and> width resized = nat (py_int (fmul (float_of_int (int (width (h ! r)))) scale_factor))
      \<and> height resized = nat (py_int (fmul (float_of_int (int (height (h ! r)))) scale_factor))
      \<and> (\<forall>row<width resized. \<forall>col<height resized.
            pix resized ! row ! col =
              (let scaled_row = fdiv (float_of_int (int row)) scale_factor;
                   scaled_col = fdiv (float_of_int (int col)) scale_factor;
                   scaled_row_iter = py_int scaled_row - 1;
                   scaled_col_iter = py_int scaled_col - 1;
                   weighted_sum = (\<lambda>channel.
                     fold (\<lambda>(x_index, y_index) acc.
                             fadd acc (fmul (fmul
                               (float_of_int (channel (pix (h ! r) ! nat (scaled_row_iter + int x_index)
                                                                 ! nat (scaled_col_iter + int y_index))))
                               (cubic lib (fsub (fsub scaled_row (float_of_int scaled_row_iter))
                                                (float_of_int (int x_index)))))
                               (cubic lib (fsub (fsub scaled_col (float_of_int scaled_col_iter))
                                                (float_of_int (int y_index))))))
                       (filter (\<lambda>(x_index, y_index).
                                  0 \<le> scaled_row_iter + int x_index
                                  \<and> scaled_row_iter + int x_index < int (width (h ! r))
                                  \<and> 0 \<le> scaled_col_iter + int y_index
                                  \<and> scaled_col_iter + int y_index < int (height (h ! r)))
                          (List.product [0..<4] [0..<4]))
                       0)
               in RGB (py_int (min (max (weighted_sum (\<lambda>p. case p of RGB red green blue \<Rightarrow> red | L v \<Rightarrow> v)) 0) 255))
                      (py_int (min (max (weighted_sum (\<lambda>p. case p of RGB red green blue \<Rightarrow> green | L v \<Rightarrow> v)) 0) 255))
                      (py_int (min (max (weighted_sum (\<lambda>p. case p of RGB red green blue \<Rightarrow> blue | L v \<Rightarrow> v)) 0) 255))))"
proof -
  from bicubic_filter_scratch[OF assms] obtain resized where
    e: "bicubic_filter lib h (ImageV r) scale_factor False = Inr (ImageV (length h), h @ [resized])"
    and inv: "fill_inv (nat (py_int (fmul (float_of_int (int (width (h ! r)))) scale_factor)))
                (nat (py_int (fmul (float_of_int (int (height (h ! r)))) scale_factor)))
                (bicubic_pixel lib (h ! r) scale_factor)
                (nat (py_int (fmul (float_of_int (int (width (h ! r)))) scale_factor))) 0 resized"
    by blast
  have w: "width resized = nat (py_int (fmul (float_of_int (int (width (h ! r)))) scale_factor))"
    and hh: "height resized = nat (py_int (fmul (float_of_int (int (height (h ! r)))) scale_factor))"
    using inv by (simp_all add: fill_inv_def)
  have px: "\<forall>row<width resized. \<forall>col<height resized.
                  pix resized ! row ! col = bicubic_pixel lib (h ! r) scale_factor row col"
    using inv unfolding w hh by (simp add: fill_inv_def)
  show ?thesis
    using e w hh px unfolding bicubic_pixel_sum by blast
qed

theorem bicubic_filter_zero_padding_witness:
  "0 < length [white_pixel_image] \<and> (0::rat) < 2
   \<and> image_new small_pil 2 2 = Inr (black_image 2 2)
   \<and> (\<exists>resized. bicubic_filter small_pil [white_pixel_image] (ImageV 0) 2 False
                   = Inr (ImageV 1, [white_pixel_image, resized])
                \<and> width resized = 2 \<and> height resized = 2
                \<and> pix resized ! 0 ! 0 = RGB 255 255 255
                \<and> pix resized ! 1 ! 1 = RGB 80 80 80)"
proof -
  have 1: "0 < length [white_pixel_image]" by simp
  have 2: "(0::rat) < 2" by simp
  have size: "py_int (fmul (float_of_int (int 1)) 2) = 2"
    by (simp add: fl_eval cong: eval_cong)
  have new: "image_new small_pil 2 2 = Inr (black_image 2 2)"
    by (simp add: small_pil_image_new)
  have 3: "image_new small_pil
             (py_int (fmul (float_of_int (int (width ([white_pixel_image] ! 0)))) 2))
             (py_int (fmul (float_of_int (int (height ([white_pixel_image] ! 0)))) 2))
           = Inr (black_image
                    (nat (py_int (fmul (float_of_int (int (width ([white_pixel_image] ! 0)))) 2)))
                    (nat (py_int (fmul (float_of_int (int (height ([white_pixel_image] ! 0)))) 2))))"
    using size new by (simp add: white_pixel_image_def)
  have px0: "bicubic_pixel small_pil white_pixel_image 2 0 0 = RGB 255 255 255"
    by (simp add: white_pixel_image_def img_eval fl_eval del: fold.simps cong: eval_cong)
  have px1: "bicubic_pixel small_pil white_pixel_image 2 1 1 = RGB 80 80 80"
    by (simp add: white_pixel_image_def img_eval fl_eval del: fold.simps cong: eval_cong)
  from bicubic_filter_zero_padding[OF 1 2 3] obtain resized where
    e: "bicubic_filter small_pil [white_pixel_image] (ImageV 0) 2 False
          = Inr (ImageV (length [white_pixel_image]), [white_pixel_image] @ [resized])"
    and w: "width resized
          = nat (py_int (fmul (float_of_int (int (width ([white_pixel_image] ! 0)))) 2))"
    and hh: "height resized
          = nat (py_int (fmul (float_of_int (int (height ([white_pixel_image] ! 0)))) 2))"
    and p: "\<forall>row<width resized. \<forall>col<height resized.
          pix resized ! row ! col = bicubic_pixel small_pil ([white_pixel_image] ! 0) 2 row col"
    unfolding bicubic_pixel_sum by blast
  have w2: "width resized = 2" and h2: "height resized = 2"
    using w hh size by (simp_all add: white_pixel_image_def)
  have "pix resized ! 0 ! 0 = RGB 255 255 255" "pix resized ! 1 ! 1 = RGB 80 80 80"
    using p w2 h2 px0 px1 by simp_all
  then show ?thesis using 1 2 new e w2 h2 by simp
qed

section \<open>Which stages write into their input\<close>

lemma store_frame:
  "length (store h imagev img') = length h
   \<and> (\<forall>i<length h. imagev \<noteq> ImageV i \<longrightarrow> store h imagev img' ! i = h ! i)"
  by (cases imagev) (auto simp add: store_def nth_list_update)

text \<open>
  C6, as stated, fails: the from-scratch \<^verbatim>\<open>to_grayscale\<close> writes into the image it is
  given. After the call on a red pixel the input object holds (76, 76, 76).
\<close>

theorem to_grayscale_overwrites_input_counterexample:
  "to_grayscale small_pil [red_pixel_image] (ImageV 0) False
     = Inr (ImageV 0, [\<lparr>width = 1, height = 1, pix = [[RGB 76 76 76]]\<rparr>])
   \<and> \<lparr>width = 1, height = 1, pix = [[RGB 76 76 76]]\<rparr> \<noteq> red_pixel_image"
  by (simp add: red_pixel_image_def img_eval fl_eval cong: eval_cong)

text \<open>
  C6, amended. \<^verbatim>\<open>bilinear_filter\<close> and \<^verbatim>\<open>bicubic_filter\<close> in from-scratch mode, and
  \<^verbatim>\<open>to_grayscale\<close> and \<^verbatim>\<open>binary_threshold\<close> in fast mode, leave every image object that
  existed before the call as it was (the two fast stages return a new object). In
  from-scratch mode \<^verbatim>\<open>to_grayscale\<close> and \<^verbatim>\<open>binary_threshold\<close> return the object they were
  given and leave every other object as it was; on a three-band image they do return, and
  the object they were given then holds their result: the pixel \<open>(red, green, blue)\<close> has
  become three times its luminance, respectively black where its first channel is below
  the threshold and white elsewhere.
\<close>

theorem stages_frame:
  "(bilinear_filter lib h imagev scale_factor False = Inr (v, h') \<longrightarrow> take (length h) h' = h)
   \<and> (bicubic_filter lib h imagev scale_factor False = Inr (v, h') \<longrightarrow> take (length h) h' = h)
   \<and> (to_grayscale lib h imagev True = Inr (v, h')
        \<longrightarrow> take (length h) h' = h \<and> v = ImageV (length h))
   \<and> (binary_threshold lib h imagev threshold True = Inr (v, h')
        \<longrightarrow> take (length h) h' = h \<and> v = ImageV (length h))
   \<and> (to_grayscale lib h imagev False = Inr (v, h')
        \<longrightarrow> v = imagev \<and> length h' = length h
            \<and> (\<forall>i<length h. imagev \<noteq> ImageV i \<longrightarrow> h' ! i = h ! i))
   \<and> (binary_threshold lib h imagev threshold False = Inr (v, h')
        \<longrightarrow> v = imagev \<and> length h' = length h
            \<and> (\<forall>i<length h. imagev \<noteq> ImageV i \<longrightarrow> h' ! i = h ! i))
   \<and> (r < length h \<and> rgb_image (h ! r)
        \<longrightarrow> (\<exists>img'. to_grayscale lib h (ImageV r) False = Inr (ImageV r, h[r := img'])
               \<and> width img' = width (h ! r) \<and> height img' = height (h ! r)
               \<and> (\<forall>x<width (h ! r). \<forall>y<height (h ! r). \<forall>red green blue.
                     pix (h ! r) ! x ! y = RGB red green blue \<longrightarrow>
                     pix img' ! x ! y = RGB (luminance red green blue) (luminance red green blue)
                                            (luminance red green blue))))
   \<and> (r < length h \<and> rgb_image (h ! r)
        \<longrightarrow> (\<exists>img'. binary_threshold lib h (ImageV r) threshold False = Inr (ImageV r, h[r := img'])
               \<and> width img' = width (h ! r) \<and> height img' = height (h ! r)
               \<and> (\<forall>x<width (h ! r). \<forall>y<height (h ! r). \<forall>l g b.
                     pix (h ! r) ! x ! y = RGB l g b \<longrightarrow>
                     pix img' ! x ! y = (if l < threshold then RGB 0 0 0 else RGB 255 255 255))))"
proof -
  have a: "bilinear_filter lib h imagev scale_factor False = Inr (v, h') \<longrightarrow> take (length h) h' = h"
    by (auto simp add: bilinear_filter_def bnd_def split: sum.splits)
  have b: "bicubic_filter lib h imagev scale_factor False = Inr (v, h') \<longrightarrow> take (length h) h' = h"
    by (auto simp add: bicubic_filter_def bnd_def split: sum.splits)
  have c: "to_grayscale lib h imagev True = Inr (v, h')
        \<longrightarrow> take (length h) h' = h \<and> v = ImageV (length h)"
    by (auto simp add: to_grayscale_def bnd_def split: sum.splits)
  have d: "binary_threshold lib h imagev threshold True = Inr (v, h')
        \<longrightarrow> take (length h) h' = h \<and> v = ImageV (length h)"
    by (auto simp add: binary_threshold_def bnd_def split: sum.splits)
  have e: "to_grayscale lib h imagev False = Inr (v, h')
        \<longrightarrow> v = imagev \<and> length h' = length h
            \<and> (\<forall>i<length h. imagev \<noteq> ImageV i \<longrightarrow> h' ! i = h ! i)"
    using store_frame[of h imagev]
    by (auto simp add: to_grayscale_def bnd_def split: sum.splits)
  have f: "binary_threshold lib h imagev threshold False = Inr (v, h')
        \<longrightarrow> v = imagev \<and> length h' = length h
            \<and> (\<forall>i<length h. imagev \<noteq> ImageV i \<longrightarrow> h' ! i = h ! i)"
    using store_frame[of h imagev]
    by (auto simp add: binary_threshold_def bnd_def split: sum.splits)
  show ?thesis
    using a b c d e f to_grayscale_scratch_pixels[of r h lib]
      binary_threshold_scratch_pixels[of r h lib threshold]
    by blast
qed

theorem stages_frame_witness:
  "bilinear_filter small_pil [white_pixel_image, two_pixel_image] (ImageV 0) 1 False
     = Inr (ImageV 0, [white_pixel_image, two_pixel_image, white_pixel_image])
   \<and> take (length [white_pixel_image, two_pixel_image])
        [white_pixel_image, two_pixel_image, white_pixel_image]
      = [white_pixel_image, two_pixel_image]
   \<and> bicubic_filter small_pil [white_pixel_image, two_pixel_image] (ImageV 0) 1 False
     = Inr (ImageV 2, [white_pixel_image, two_pixel_image, white_pixel_image])
   \<and> to_grayscale small_pil [white_pixel_image, two_pixel_image] (ImageV 0) True
     = Inr (ImageV 2, [white_pixel_image, two_pixel_image,
                       \<lparr>width = 1, height = 1, pix = [[L 255]]\<rparr>])
   \<and> take (length [white_pixel_image, two_pixel_image])
        [white_pixel_image, two_pixel_image, \<lparr>width = 1, height = 1, pix = [[L 255]]\<rparr>]
      = [white_pixel_image, two_pixel_image]
   \<and> binary_threshold small_pil [gray_pixel_image, two_pixel_image] (ImageV 0) 128 True
     = Inr (ImageV 2, [gray_pixel_image, two_pixel_image,
                       \<lparr>width = 1, height = 1, pix = [[L 255]]\<rparr>])
   \<and> take (length [gray_pixel_image, two_pixel_image])
        [gray_pixel_image, two_pixel_image, \<lparr>width = 1, height = 1, pix = [[L 255]]\<rparr>]
      = [gray_pixel_image, two_pixel_image]
   \<and> to_grayscale small_pil [white_pixel_image, two_pixel_image] (ImageV 0) False
     = Inr (ImageV 0, [\<lparr>width = 1, height = 1, pix = [[RGB 254 254 254]]\<rparr>, two_pixel_image])
   \<and> [\<lparr>width = 1, height = 1, pix = [[RGB 254 254 254]]\<rparr>, two_pixel_image] ! 1
      = [white_pixel_image, two_pixel_image] ! 1
   \<and> binary_threshold small_pil [white_pixel_image, two_pixel_image] (ImageV 1) 128 False
     = Inr (ImageV 1, [white_pixel_image,
                       \<lparr>width = 2, height = 1, pix = [[RGB 255 255 255], [RGB 0 0 0]]\<rparr>])
   \<and> [white_pixel_image,
       \<lparr>width = 2, height = 1, pix = [[RGB 255 255 255], [RGB 0 0 0]]\<rparr>] ! 0
      = [white_pixel_image, two_pixel_image] ! 0
   \<and> (\<exists>img'. to_grayscale small_pil [white_pixel_image, two_pixel_image] (ImageV 1) False
                 = Inr (ImageV 1, [white_pixel_image, two_pixel_image][1 := img'])
              \<and> pix img' ! 0 ! 0 = RGB 43 43 43 \<and> pix img' ! 1 ! 0 = RGB 185 185 185)
   \<and> (\<exists>img'. binary_threshold small_pil [white_pixel_image, two_pixel_image] (ImageV 1) 128 False
                 = Inr (ImageV 1, [white_pixel_image, two_pixel_image][1 := img'])
              \<and> pix img' ! 0 ! 0 = RGB 255 255 255 \<and> pix img' ! 1 ! 0 = RGB 0 0 0)"
proof -
  let ?h = "[white_pixel_image, two_pixel_image]"
  let ?g = "[gray_pixel_image, two_pixel_image]"
  let ?L = "\<lparr>width = 1, height = 1, pix = [[L 255]]\<rparr>"
  let ?G = "\<lparr>width = 1, height = 1, pix = [[RGB 254 254 254]]\<rparr>"
  let ?T = "\<lparr>width = 2, height = 1, pix = [[RGB 255 255 255], [RGB 0 0 0]]\<rparr>"
  have a: "bilinear_filter small_pil ?h (ImageV 0) 1 False
     = Inr (ImageV 0, [white_pixel_image, two_pixel_image, white_pixel_image])"
    by (simp add: white_pixel_image_def img_eval fl_eval cong: eval_cong)
  have b: "bicubic_filter small_pil ?h (ImageV 0) 1 False
     = Inr (ImageV 2, [white_pixel_image, two_pixel_image, white_pixel_image])"
    by (simp add: white_pixel_image_def img_eval fl_eval del: fold.simps cong: eval_cong)
  have c: "to_grayscale small_pil ?h (ImageV 0) True
     = Inr (ImageV 2, [white_pixel_image, two_pixel_image, ?L])"
    by (simp add: white_pixel_image_def img_eval cong: eval_cong)
  have d: "binary_threshold small_pil ?g (ImageV 0) 128 True
     = Inr (ImageV 2, [gray_pixel_image, two_pixel_image, ?L])"
    by (simp add: gray_pixel_image_def is_rgb_def img_eval cong: eval_cong)
  have e: "to_grayscale small_pil ?h (ImageV 0) False = Inr (ImageV 0, [?G, two_pixel_image])"
    by (simp add: white_pixel_image_def img_eval fl_eval cong: eval_cong)
  have f: "binary_threshold small_pil ?h (ImageV 1) 128 False = Inr (ImageV 1, [white_pixel_image, ?T])"
    by (simp add: two_pixel_image_def img_eval cong: eval_cong)
  have lum: "luminance 128 7 9 = 43" "luminance 127 250 3 = 185"
    by (simp_all add: luminance_def fl_eval cong: eval_cong)
  have rgb: "1 < length ?h \<and> rgb_image (?h ! 1)"
    by (simp add: rgb_image_def two_pixel_image_def is_rgb_def)
  have px: "pix (?h ! 1) ! 0 ! 0 = RGB 128 7 9" "pix (?h ! 1) ! 1 ! 0 = RGB 127 250 3"
    "width (?h ! 1) = 2" "height (?h ! 1) = 1"
    by (simp_all add: two_pixel_image_def)
  from stages_frame[of small_pil ?h "ImageV 0" 1 "ImageV 0"
      "[white_pixel_image, two_pixel_image, white_pixel_image]" 128 1] a
  have a': "take (length ?h) [white_pixel_image, two_pixel_image, white_pixel_image] = ?h"
    by blast
  from stages_frame[of small_pil ?h "ImageV 0" 1 "ImageV 2"
      "[white_pixel_image, two_pixel_image, ?L]" 128 1] c
  have c': "take (length ?h) [white_pixel_image, two_pixel_image, ?L] = ?h"
    by blast
  from stages_frame[of small_pil ?g "ImageV 0" 1 "ImageV 2"
      "[gray_pixel_image, two_pixel_image, ?L]" 128 1] d
  have d': "take (length ?g) [gray_pixel_image, two_pixel_image, ?L] = ?g"
    by blast
  from stages_frame[of small_pil ?h "ImageV 0" 1 "ImageV 0" "[?G, two_pixel_image]" 128 1] e
  have "\<forall>i<length ?h. ImageV 0 \<noteq> ImageV i \<longrightarrow> [?G, two_pixel_image] ! i = ?h ! i"
    by blast
  then have e': "[?G, two_pixel_image] ! 1 = ?h ! 1" by simp
  from stages_frame[of small_pil ?h "ImageV 1" 1 "ImageV 1" "[white_pixel_image, ?T]" 128 1] f
  have "\<forall>i<length ?h. ImageV 1 \<noteq> ImageV i \<longrightarrow> [white_pixel_image, ?T] ! i = ?h ! i"
    by blast
  then have f': "[white_pixel_image, ?T] ! 0 = ?h ! 0" by simp
  from stages_frame[of small_pil ?h "ImageV 1" 1 "ImageV 1" "[white_pixel_image, ?T]" 128 1] rgb
  obtain img1 where g1: "to_grayscale small_pil ?h (ImageV 1) False = Inr (ImageV 1, ?h[1 := img1])"
    and g2: "\<forall>x<width (?h ! 1). \<forall>y<height (?h ! 1). \<forall>red green blue.
               pix (?h ! 1) ! x ! y = RGB red green blue \<longrightarrow>
               pix img1 ! x ! y = RGB (luminance red green blue) (luminance red green blue)
                                      (luminance red green blue)"
    by blast
  have g3: "pix img1 ! 0 ! 0 = RGB 43 43 43" "pix img1 ! 1 ! 0 = RGB 185 185 185"
    using g2 px lum by simp_all
  from stages_frame[of small_pil ?h "ImageV 1" 1 "ImageV 1" "[white_pixel_image, ?T]" 128 1] rgb
  obtain img2 where t1: "binary_threshold small_pil ?h (ImageV 1) 128 False
                           = Inr (ImageV 1, ?h[1 := img2])"
    and t2: "\<forall>x<width (?h ! 1). \<forall>y<height (?h ! 1). \<forall>l g b.
               pix (?h ! 1) ! x ! y = RGB l g b \<longrightarrow>
               pix img2 ! x ! y = (if l < 128 then RGB 0 0 0 else RGB 255 255 255)"
    by blast
  have t3: "pix img2 ! 0 ! 0 = RGB 255 255 255" "pix img2 ! 1 ! 0 = RGB 0 0 0"
    using t2 px by simp_all
  have G: "\<exists>img'. to_grayscale small_pil ?h (ImageV 1) False = Inr (ImageV 1, ?h[1 := img'])
              \<and> pix img' ! 0 ! 0 = RGB 43 43 43 \<and> pix img' ! 1 ! 0 = RGB 185 185 185"
    using g1 g3 by blast
  have T: "\<exists>img'. binary_threshold small_pil ?h (ImageV 1) 128 False = Inr (ImageV 1, ?h[1 := img'])
              \<and> pix img' ! 0 ! 0 = RGB 255 255 255 \<and> pix img' ! 1 ! 0 = RGB 0 0 0"
    using t1 t3 by blast
  show ?thesis using a a' b c c' d d' e e' f f' G T by blast
qed

section \<open>Channel values stay in range\<close>







end
